theory Spec2Isabelle
  imports Main
begin

section \<open>The EPG downloader: data model\<close>

text \<open>
  The development follows \<^verbatim>\<open>epg_downloader.py\<close>. The program is a staged pipeline of
  network fetches; every effect it has on the outside (network, disk cache, clock, log,
  poster files) is a field of the record \<open>world\<close> below, threaded through each function.
  An exception is a value \<open>Inl e\<close> of the result.
\<close>

subsection \<open>Exceptions\<close>

text \<open>
  The classes of \<^verbatim>\<open>Exception\<close> the program names, some that the libraries it calls raise
  on the paths modelled here, and \<open>OtherError\<close> for a class that derives from none of them.
  An exception value is identified with its class; one of a subclass that is not listed
  counts as its nearest listed base class. \<^verbatim>\<open>BaseException\<close>s that are no
  \<^verbatim>\<open>Exception\<close> (\<^verbatim>\<open>KeyboardInterrupt\<close>, \<^verbatim>\<open>CancelledError\<close>) are not modelled.
\<close>

datatype exc =
    TimeoutError
  | ClientConnectionError
  | ClientResponseError
  | ServerDisconnectedError
  | ClientPayloadError
  | JSONDecodeError
  | ValidationError
  | AttributeError
  | KeyError
  | TypeError
  | OSError
  | UnidentifiedImageError
  | OtherError string

text \<open>
  \<^verbatim>\<open>isinstance(e, exc)\<close>: the class itself or a base class. Of the classes above,
  \<^verbatim>\<open>ServerDisconnectedError\<close> derives from \<^verbatim>\<open>ClientConnectionError\<close> (aiohttp) and
  \<^verbatim>\<open>UnidentifiedImageError\<close> from \<^verbatim>\<open>OSError\<close> (PIL).
\<close>

definition isinstance :: "exc \<Rightarrow> exc \<Rightarrow> bool" where
  "isinstance e c \<longleftrightarrow>
     e = c
     \<or> (e = ServerDisconnectedError \<and> c = ClientConnectionError)
     \<or> (e = UnidentifiedImageError \<and> c = OSError)"

subsection \<open>Values\<close>

type_synonym bytes = "nat list"

datatype json =
    JNull
  | JBool bool
  | JInt int
  | JStr string
  | JList "json list"
  | JDict "(string \<times> json) list"

text \<open>What \<^verbatim>\<open>response.json()\<close> or \<^verbatim>\<open>response.read()\<close> returns.\<close>

datatype raw = RJson json | RBytes bytes

text \<open>
  The classes of \<^verbatim>\<open>models.ustvgo\<close> and \<^verbatim>\<open>models.tvguide\<close>, with the fields this file reads
  or writes. \<open>program_id\<close> is \<^verbatim>\<open>Program.id\<close>, \<open>details\<close> and \<open>cast\<close> are the attributes
  \<^verbatim>\<open>_details\<close> and \<^verbatim>\<open>_cast\<close>.
\<close>

record Image =
  url :: string
  width :: int
  height :: int
  bucketPath :: string
  bucketType :: string

record ProgramDetails =
  mcoId :: "int option"
  images :: "Image list"

record ShowsCast =
  cast_id :: string
  cast_items :: "json list"

record Program =
  program_id :: int
  start_timestamp :: int
  end_timestamp :: int
  name :: string
  tags :: "string list"
  details :: "ProgramDetails option"
  cast :: "ShowsCast option"

text \<open>An entry of \<^verbatim>\<open>channels.json\<close>; \<open>programs\<close> is the key \<^verbatim>\<open>'programs'\<close> the pipeline sets.\<close>

record Channel =
  tvguide_id :: "string option"
  stream_id :: string
  channel_name :: string
  language :: string
  programs :: "Program list"

text \<open>
  The values that pass through \<^verbatim>\<open>download_with_retries\<close> and the disk cache: \<^verbatim>\<open>None\<close>,
  an unparsed response (identity loader), and what the five loaders of the file return.
  \<open>PTags\<close> holds the items of the dictionary \<^verbatim>\<open>{(programId, startTime): airingAttrib}\<close>.
\<close>

datatype pyval =
    PNone
  | PRaw raw
  | PBytes bytes
  | PPrograms "Program list"
  | PDetails ProgramDetails
  | PCast ShowsCast
  | PTags "((int \<times> int) \<times> int) list"

text \<open>Python truthiness, as \<^verbatim>\<open>if result:\<close> tests it.\<close>

fun truthy_json :: "json \<Rightarrow> bool" where
  "truthy_json JNull = False"
| "truthy_json (JBool b) = b"
| "truthy_json (JInt i) = (i \<noteq> 0)"
| "truthy_json (JStr s) = (s \<noteq> [])"
| "truthy_json (JList xs) = (xs \<noteq> [])"
| "truthy_json (JDict kvs) = (kvs \<noteq> [])"

fun truthy :: "pyval \<Rightarrow> bool" where
  "truthy PNone = False"
| "truthy (PRaw (RJson j)) = truthy_json j"
| "truthy (PRaw (RBytes b)) = (b \<noteq> [])"
| "truthy (PBytes b) = (b \<noteq> [])"
| "truthy (PPrograms ps) = (ps \<noteq> [])"
| "truthy (PDetails d) = True"
| "truthy (PCast c) = True"
| "truthy (PTags kvs) = (kvs \<noteq> [])"

subsection \<open>The world\<close>

text \<open>One \<^verbatim>\<open>session.get(url, timeout=timeout)\<close> with the session's headers and the method read.\<close>

datatype request = Get string "(string \<times> string) list option" string int

datatype stage = FetchPrograms | FetchDetails | FetchCast | FetchImages | FetchTags

datatype event = Started stage | Finished stage

text \<open>
  A log record: the warning of an exhausted fetch with its URL, or the warning for one
  image with the exception and the image's URL.
\<close>

datatype log_record = FailedDownload string | ImageFailure exc string

record world =
  cache :: "string \<rightharpoonup> (pyval \<times> int)"
  clock :: int
  fetched :: "request list"
  warnings :: "log_record list"
  posters :: "string \<rightharpoonup> bytes"
  trace :: "event list"
  xmltv :: "Channel list option"

text \<open>
  \<^item> \<open>cache\<close>: \<^verbatim>\<open>DISK_CACHE\<close>, each key with its value and expiry time;
  \<^item> \<open>clock\<close>: \<^verbatim>\<open>time.time()\<close> in seconds;
  \<^item> \<open>fetched\<close>: every network attempt made so far, in order;
  \<^item> \<open>warnings\<close>: what \<^verbatim>\<open>logger.warning\<close> and \<^verbatim>\<open>logger.warn\<close> were given;
  \<^item> \<open>posters\<close>: the files below \<^verbatim>\<open>images/posters\<close>, by relative path;
  \<^item> \<open>trace\<close>: start and end of every task handed to \<^verbatim>\<open>gather_with_concurrency\<close>;
  \<^item> \<open>xmltv\<close>: the channels \<^verbatim>\<open>make_xmltv\<close> was called with, once it has been called.

  What the outside answers is an \<open>env\<close>: \<open>net k r\<close> is the outcome of request \<open>r\<close> when it is
  the \<open>k\<close>-th network attempt of the process (counted from 0): the seconds it took and either
  the exception raised by \<^verbatim>\<open>session.get\<close> or by reading the body, or the body read.
  The other fields:
  \<^item> the loaders of the program, detail, cast and tag fetches, as functions from the
    response to an exception or a value (the first three build objects of classes outside
    this file; the tag loader is taken to return its dictionary with integer keys and
    values); every property below holds for any such functions;
  \<^item> \<open>resize\<close> and \<open>open_image\<close>: the codec (PIL) in the image loader and in
    \<^verbatim>\<open>Image.open\<close>, which gives the width and height;
  \<^item> \<open>writable\<close>: whether the file system lets a poster be written at a path;
  \<^item> \<open>poster_url\<close>: \<^verbatim>\<open>(furl(base_url) / 'images/posters' / bucketPath).url\<close>, for a
    \<^verbatim>\<open>base_url\<close> that \<^verbatim>\<open>furl\<close> accepts;
  \<^item> \<open>utcoffset\<close>: the offset of local time from UTC, in seconds.
\<close>

record env =
  net :: "nat \<Rightarrow> request \<Rightarrow> nat \<times> (exc + raw)"
  programs_loader :: "raw \<Rightarrow> exc + pyval"
  detail_loader :: "raw \<Rightarrow> exc + pyval"
  cast_loader :: "raw \<Rightarrow> exc + pyval"
  tags_loader :: "raw \<Rightarrow> exc + pyval"
  resize :: "int \<Rightarrow> int \<Rightarrow> bytes \<Rightarrow> exc + bytes"
  open_image :: "bytes \<Rightarrow> exc + (int \<times> int)"
  writable :: "string \<Rightarrow> bool"
  poster_url :: "string \<Rightarrow> string \<Rightarrow> string"
  utcoffset :: int

section \<open>The memoizing store\<close>

definition DISK_CACHE_EXPIRE :: int where
  "DISK_CACHE_EXPIRE = 3 * 24 * 60 * 60"

text \<open>
  \<^verbatim>\<open>DISK_CACHE.get(key=url)\<close>: the stored value while its expiry time lies ahead, \<^verbatim>\<open>None\<close>
  otherwise. \<^verbatim>\<open>DISK_CACHE.set(key, value, expire)\<close>: store with expiry \<open>now + expire\<close>.
  Eviction under the size limit is not modelled.
\<close>

definition DISK_CACHE_get :: "world \<Rightarrow> string \<Rightarrow> pyval" where
  "DISK_CACHE_get s key =
     (case cache s key of
        None \<Rightarrow> PNone
      | Some (v, expire_time) \<Rightarrow> if clock s < expire_time then v else PNone)"

definition DISK_CACHE_set :: "string \<Rightarrow> pyval \<Rightarrow> int \<Rightarrow> world \<Rightarrow> world" where
  "DISK_CACHE_set key v expire s = s\<lparr>cache := (cache s)(key \<mapsto> (v, clock s + expire))\<rparr>"

text \<open>The decorator \<^verbatim>\<open>download_cached_by_url\<close>: \<open>func\<close> is the decorated coroutine.\<close>

definition download_cached_by_url ::
  "(string \<Rightarrow> 'a \<Rightarrow> world \<Rightarrow> (exc + pyval) \<times> world) \<Rightarrow>
   string \<Rightarrow> 'a \<Rightarrow> world \<Rightarrow> (exc + pyval) \<times> world" where
  "download_cached_by_url func u a s =
     (let result = DISK_CACHE_get s u in
      if \<not> truthy result then
        (case func u a s of
           (Inl e, s') \<Rightarrow> (Inl e, s')
         | (Inr result, s') \<Rightarrow>
             (Inr result,
              if truthy result then DISK_CACHE_set u result DISK_CACHE_EXPIRE s' else s'))
      else (Inr result, s))"

section \<open>The retrying fetcher\<close>

text \<open>
  The keyword arguments of \<^verbatim>\<open>download_with_retries\<close> and their defaults;
  \<open>read_method\<close> is the argument \<^verbatim>\<open>method\<close>.
\<close>

record fetch_args =
  headers :: "(string \<times> string) list option"
  timeout :: int
  timeout_increment :: int
  timeout_max :: int
  retries_max :: int
  read_method :: string
  extra_exceptions :: "exc list option"
  loader :: "(raw \<Rightarrow> exc + pyval) option"
  ret_default :: pyval

definition default_args :: fetch_args where
  "default_args =
     \<lparr>headers = None, timeout = 1, timeout_increment = 1, timeout_max = 10,
      retries_max = 10, read_method = ''json'', extra_exceptions = None, loader = None,
      ret_default = PNone\<rparr>"

definition exceptions :: "fetch_args \<Rightarrow> exc list" where
  "exceptions a =
     [TimeoutError, ClientConnectionError, ClientResponseError, ServerDisconnectedError]
     @ (if read_method a = ''json'' then [JSONDecodeError] else [])
     @ (case extra_exceptions a of None \<Rightarrow> [] | Some xs \<Rightarrow> xs)"

definition is_exc_valid :: "fetch_args \<Rightarrow> exc \<Rightarrow> bool" where
  "is_exc_valid a e = list_ex (isinstance e) (exceptions a)"

definition the_loader :: "fetch_args \<Rightarrow> raw \<Rightarrow> exc + pyval" where
  "the_loader a = (case loader a of None \<Rightarrow> (\<lambda>x. Inr (PRaw x)) | Some f \<Rightarrow> f)"

text \<open>
  The body of the \<^verbatim>\<open>try\<close>: one network attempt, logged in \<open>fetched\<close>, and the loader on
  what it read.
\<close>

definition attempt ::
  "env \<Rightarrow> fetch_args \<Rightarrow> string \<Rightarrow> int \<Rightarrow> world \<Rightarrow> (exc + pyval) \<times> world" where
  "attempt E a u t s =
     (let req = Get u (headers a) (read_method a) t;
          (dt, r) = net E (length (fetched s)) req;
          s' = s\<lparr>fetched := fetched s @ [req], clock := clock s + int dt\<rparr>
      in (case r of Inl e \<Rightarrow> (Inl e, s') | Inr body \<Rightarrow> (the_loader a body, s')))"

definition log_warning :: "log_record \<Rightarrow> world \<Rightarrow> world" where
  "log_warning msg s = s\<lparr>warnings := warnings s @ [msg]\<rparr>"

text \<open>
  The \<^verbatim>\<open>while True\<close> loop, with its variables \<open>timeout\<close> and \<open>retry\<close> as arguments. It ends:
  a further round is entered only while \<open>retry \<le> retries_max\<close>, and \<open>retry\<close> grows.
\<close>

function download_loop ::
  "env \<Rightarrow> fetch_args \<Rightarrow> string \<Rightarrow> int \<Rightarrow> int \<Rightarrow> world \<Rightarrow> (exc + pyval) \<times> world" where
  "download_loop E a u t retry s =
     (case attempt E a u t s of
        (Inr v, s') \<Rightarrow> (Inr v, s')
      | (Inl e, s') \<Rightarrow>
          if \<not> is_exc_valid a e then (Inl e, s')
          else
            let t' = min (t + timeout_increment a) (timeout_max a) in
            if retry > retries_max a then
              (Inr (ret_default a), log_warning (FailedDownload u) s')
            else download_loop E a u t' (retry + 1) s')"
  by pat_completeness auto
termination
  by (relation "measure (\<lambda>(E, a, u, t, retry, s). nat (retries_max a + 1 - retry))") auto

declare download_loop.simps [simp del]

text \<open>The undecorated coroutine, and \<^verbatim>\<open>download_with_retries\<close> as the module binds it.\<close>

definition download_with_retries_func ::
  "env \<Rightarrow> string \<Rightarrow> fetch_args \<Rightarrow> world \<Rightarrow> (exc + pyval) \<times> world" where
  "download_with_retries_func E u a s = download_loop E a u (timeout a) 1 s"

definition download_with_retries ::
  "env \<Rightarrow> string \<Rightarrow> fetch_args \<Rightarrow> world \<Rightarrow> (exc + pyval) \<times> world" where
  "download_with_retries E = download_cached_by_url (download_with_retries_func E)"

section \<open>The tasks of the stages\<close>

text \<open>\<^verbatim>\<open>'%d' % n\<close> for an integer.\<close>

fun digits :: "nat \<Rightarrow> string" where
  "digits n =
     (if n < 10 then [''0123456789'' ! n] else digits (n div 10) @ [''0123456789'' ! (n mod 10)])"

declare digits.simps [simp del]

definition str_int :: "int \<Rightarrow> string" where
  "str_int i = (if i < 0 then CHR ''-'' # digits (nat (- i)) else digits (nat i))"

definition USER_AGENT :: string where
  "USER_AGENT =
     ''Mozilla/5.0 (Windows NT 10.0; Win64; x64) AppleWebKit/537.36 ''
     @ ''(KHTML, like Gecko) Chrome/102.0.5005.63 Safari/537.36''"

definition HEADERS :: "(string \<times> string) list" where
  "HEADERS = [(''Referer'', ''http://123tv.live/''), (''User-Agent'', USER_AGENT)]"

text \<open>
  A loader returns a value of its own class, and the URLs of the five kinds of fetch
  differ, so the value read back under a URL has the class of that URL's loader. A
  value of another class is read as the absent one.
\<close>

definition the_programs :: "pyval \<Rightarrow> Program list" where
  "the_programs v = (case v of PPrograms ps \<Rightarrow> ps | _ \<Rightarrow> [])"

definition the_details :: "pyval \<Rightarrow> ProgramDetails option" where
  "the_details v = (case v of PDetails d \<Rightarrow> Some d | _ \<Rightarrow> None)"

definition the_cast :: "pyval \<Rightarrow> ShowsCast option" where
  "the_cast v = (case v of PCast c \<Rightarrow> Some c | _ \<Rightarrow> None)"

text \<open>
  A task mutates the one object it was given. Here it returns that object updated, next
  to the world; the caller puts it back in the place of the old one. Each task below
  calls \<^verbatim>\<open>download_with_retries\<close> at one place; the URL it builds there and the arguments
  it passes are named \<open>\<dots>_url\<close> and \<open>\<dots>_args\<close>.
\<close>

definition programs_url :: "string \<Rightarrow> world \<Rightarrow> string" where
  "programs_url tid s = ''http://123tv.live/epg/json/'' @ tid @ ''.json?_='' @ str_int (clock s)"

definition programs_args :: "env \<Rightarrow> fetch_args" where
  "programs_args E =
     default_args\<lparr>headers := Some HEADERS, loader := Some (programs_loader E),
       ret_default := PPrograms [],
       extra_exceptions := Some [ValidationError, AttributeError]\<rparr>"

definition download_programs :: "env \<Rightarrow> Channel \<Rightarrow> world \<Rightarrow> (exc + Channel) \<times> world" where
  "download_programs E channel s =
     (case tvguide_id channel of
        None \<Rightarrow> (Inr (channel\<lparr>programs := []\<rparr>), s)
      | Some tid \<Rightarrow>
          if tid = [] then (Inr (channel\<lparr>programs := []\<rparr>), s)
          else
            (case download_with_retries E (programs_url tid s) (programs_args E) s of
               (Inl e, s') \<Rightarrow> (Inl e, s')
             | (Inr v, s') \<Rightarrow> (Inr (channel\<lparr>programs := the_programs v\<rparr>), s')))"

definition detail_headers :: "(string \<times> string) list" where
  "detail_headers = [(''Referer'', ''https://google.com''), (''User-Agent'', USER_AGENT)]"

definition detail_url :: "Program \<Rightarrow> string" where
  "detail_url program =
     ''https://cmg-prod.apigee.net/v1/xapi/tvschedules/tvguide/programdetails/''
     @ str_int (program_id program) @ ''/web''"

definition detail_args :: "env \<Rightarrow> fetch_args" where
  "detail_args E =
     default_args\<lparr>headers := Some detail_headers, loader := Some (detail_loader E),
       extra_exceptions := Some [ValidationError, KeyError]\<rparr>"

definition download_program_detail ::
  "env \<Rightarrow> Program \<Rightarrow> world \<Rightarrow> (exc + Program) \<times> world" where
  "download_program_detail E program s =
     (case download_with_retries E (detail_url program) (detail_args E) s of
        (Inl e, s') \<Rightarrow> (Inl e, s')
      | (Inr v, s') \<Rightarrow> (Inr (program\<lparr>details := the_details v\<rparr>), s'))"

definition cast_url :: "int \<Rightarrow> string" where
  "cast_url m =
     ''https://cmg-prod.apigee.net/v1/xapi/composer/tvguide/pages/''
     @ ''shows-cast/'' @ str_int m @ ''/web?contentOnly=true''"

definition cast_args :: "env \<Rightarrow> fetch_args" where
  "cast_args E =
     default_args\<lparr>headers := Some detail_headers, loader := Some (cast_loader E),
       extra_exceptions := Some [ValidationError, KeyError, AttributeError]\<rparr>"

definition download_program_cast ::
  "env \<Rightarrow> Program \<Rightarrow> world \<Rightarrow> (exc + Program) \<times> world" where
  "download_program_cast E program s =
     (case details program of
        None \<Rightarrow> (Inr program, s)
      | Some d \<Rightarrow>
          (case mcoId d of
             None \<Rightarrow> (Inr program, s)
           | Some m \<Rightarrow>
               if m = 0 then (Inr program, s)
               else
                 (case download_with_retries E (cast_url m) (cast_args E) s of
                    (Inl e, s') \<Rightarrow> (Inl e, s')
                  | (Inr v, s') \<Rightarrow> (Inr (program\<lparr>cast := the_cast v\<rparr>), s'))))"

subsection \<open>Images\<close>

text \<open>The loader of an image fetch: decode, shrink, encode again (PIL, through \<open>resize\<close>).\<close>

definition image_loader :: "env \<Rightarrow> int \<Rightarrow> int \<Rightarrow> raw \<Rightarrow> exc + pyval" where
  "image_loader E images_size images_quality response =
     (case response of
        RBytes b \<Rightarrow>
          (case resize E images_size images_quality b of
             Inl e \<Rightarrow> Inl e
           | Inr b' \<Rightarrow> Inr (PBytes b'))
      | RJson j \<Rightarrow> Inl TypeError)"

text \<open>\<^verbatim>\<open>io.BytesIO(img_bytes)\<close>: the bytes, an empty buffer for \<^verbatim>\<open>None\<close>, else a \<^verbatim>\<open>TypeError\<close>.\<close>

definition BytesIO :: "pyval \<Rightarrow> exc + bytes" where
  "BytesIO v = (case v of PBytes b \<Rightarrow> Inr b | PNone \<Rightarrow> Inr [] | _ \<Rightarrow> Inl TypeError)"

definition lstrip_slash :: "string \<Rightarrow> string" where
  "lstrip_slash p = dropWhile (\<lambda>c. c = CHR ''/'') p"

text \<open>
  The body of the \<^verbatim>\<open>try\<close> for one image. \<open>writable\<close> says whether \<^verbatim>\<open>mkdir\<close> and
  \<^verbatim>\<open>write_bytes\<close> succeed for the path (an \<^verbatim>\<open>OSError\<close> otherwise). The four assignments
  after \<^verbatim>\<open>Image.open\<close> are one update: with a \<^verbatim>\<open>base_url\<close> that \<^verbatim>\<open>furl\<close> accepts, none of
  them raises.
\<close>

definition image_args :: "env \<Rightarrow> int \<Rightarrow> int \<Rightarrow> fetch_args" where
  "image_args E images_size images_quality =
     default_args\<lparr>read_method := ''read'',
       loader := Some (image_loader E images_size images_quality),
       timeout := 15, timeout_max := 120, timeout_increment := 10\<rparr>"

definition process_image ::
  "env \<Rightarrow> int \<Rightarrow> int \<Rightarrow> string \<Rightarrow> Image \<Rightarrow> world \<Rightarrow> (exc + Image) \<times> world" where
  "process_image E images_size images_quality base_url img s =
     (case download_with_retries E (url img) (image_args E images_size images_quality) s of
        (Inl e, s1) \<Rightarrow> (Inl e, s1)
      | (Inr img_bytes, s1) \<Rightarrow>
          let img_path = lstrip_slash (bucketPath img) in
          if \<not> writable E img_path then (Inl OSError, s1)
          else
            (case BytesIO img_bytes of
               Inl e \<Rightarrow> (Inl e, s1)
             | Inr iobytes \<Rightarrow>
                 let s2 = s1\<lparr>posters := (posters s1)(img_path \<mapsto> iobytes)\<rparr> in
                 (case open_image E iobytes of
                    Inl e \<Rightarrow> (Inl e, s2)
                  | Inr (w, h) \<Rightarrow>
                      (Inr (img\<lparr>width := w, height := h,
                              bucketPath := poster_url E base_url (bucketPath img),
                              bucketType := ''local''\<rparr>), s2))))"

text \<open>
  One round of the \<^verbatim>\<open>for\<close> loop: the \<^verbatim>\<open>try\<close> with its \<^verbatim>\<open>except Exception\<close>, which
  logs and goes on. What the body did to the world before it raised stays done.
\<close>

definition image_step ::
  "env \<Rightarrow> int \<Rightarrow> int \<Rightarrow> string \<Rightarrow> Image \<Rightarrow> world \<Rightarrow> Image \<times> world" where
  "image_step E images_size images_quality base_url img s =
     (case process_image E images_size images_quality base_url img s of
        (Inl e, s') \<Rightarrow> (img, log_warning (ImageFailure e (url img)) s')
      | (Inr img', s') \<Rightarrow> (img', s'))"

fun images_loop ::
  "env \<Rightarrow> int \<Rightarrow> int \<Rightarrow> string \<Rightarrow> Image list \<Rightarrow> world \<Rightarrow> Image list \<times> world" where
  "images_loop E images_size images_quality base_url [] s = ([], s)"
| "images_loop E images_size images_quality base_url (img # rest) s =
     (case image_step E images_size images_quality base_url img s of
        (img', s1) \<Rightarrow>
          (case images_loop E images_size images_quality base_url rest s1 of
             (rest', s2) \<Rightarrow> (img' # rest', s2)))"

definition download_program_images ::
  "env \<Rightarrow> Program \<Rightarrow> int \<Rightarrow> int \<Rightarrow> string \<Rightarrow> world \<Rightarrow> (exc + Program) \<times> world" where
  "download_program_images E program images_size images_quality base_url s =
     (case details program of
        None \<Rightarrow> (Inr program, s)
      | Some d \<Rightarrow>
          (case images_loop E images_size images_quality base_url (images d) s of
             (imgs, s') \<Rightarrow> (Inr (program\<lparr>details := Some (d\<lparr>images := imgs\<rparr>)\<rparr>), s')))"

subsection \<open>Tags\<close>

unbundle bit_operations_syntax

definition tags_headers :: "(string \<times> string) list" where
  "tags_headers = [(''Referer'', ''https://www.tvguide.com/''), (''User-Agent'', USER_AGENT)]"

text \<open>The two \<^verbatim>\<open>if\<close>s of the inner loop, for one program.\<close>

definition tag_program :: "(int \<times> int) set \<Rightarrow> (int \<times> int) set \<Rightarrow> Program \<Rightarrow> Program" where
  "tag_program programs_new programs_live program =
     (let p1 = (if (program_id program, start_timestamp program) \<in> programs_new
                then program\<lparr>tags := tags program @ [''new'']\<rparr> else program)
      in if (program_id p1, start_timestamp p1) \<in> programs_live
         then p1\<lparr>tags := tags p1 @ [''live'']\<rparr> else p1)"

text \<open>
  \<^verbatim>\<open>datetime.utcnow()\<close> is a naive time, which \<^verbatim>\<open>timestamp()\<close> reads as local time: the
  start is half an hour back, shifted by the zone's offset. \<^verbatim>\<open>data.items()\<close> of a value
  that is no dictionary is an \<^verbatim>\<open>AttributeError\<close>.
\<close>

definition tags_url :: "env \<Rightarrow> world \<Rightarrow> string" where
  "tags_url E s =
     (let start_ts = clock s - 30 * 60 - utcoffset E;
          duration_mins = 60 * 48;
          provider_id = ''9100001138''
      in ''https://cmg-prod.apigee.net/v1/xapi/tvschedules''
         @ ''/tvguide/'' @ provider_id @ ''/web?start='' @ str_int start_ts
         @ ''&duration='' @ str_int duration_mins)"

definition tags_args :: "env \<Rightarrow> fetch_args" where
  "tags_args E =
     default_args\<lparr>headers := Some tags_headers, loader := Some (tags_loader E),
       timeout := 30, timeout_increment := 5, timeout_max := 60\<rparr>"

definition download_program_tags ::
  "env \<Rightarrow> Channel list \<Rightarrow> world \<Rightarrow> (exc + Channel list) \<times> world" where
  "download_program_tags E channels s =
     (case download_with_retries E (tags_url E s) (tags_args E) s of
        (Inl e, s') \<Rightarrow> (Inl e, s')
      | (Inr data, s') \<Rightarrow>
          if truthy data then
            (case data of
               PTags items \<Rightarrow>
                 let programs_new = set (map fst (filter (\<lambda>(k, v). v AND 4 \<noteq> 0) items));
                     programs_live = set (map fst (filter (\<lambda>(k, v). v AND 1 \<noteq> 0) items))
                 in (Inr (map (\<lambda>channel.
                            channel\<lparr>programs :=
                              map (tag_program programs_new programs_live)
                                (programs channel)\<rparr>) channels), s')
             | _ \<Rightarrow> (Inl AttributeError, s'))
          else (Inr channels, s'))"

section \<open>The concurrency gate\<close>

text \<open>
  The tasks of a batch run one after the other in the order given: the schedule of the
  program for \<open>n = 1\<close> (the semaphore wakes its waiters in order), and one of its schedules
  for a larger \<open>n\<close>. \<^verbatim>\<open>gather\<close> is called without \<^verbatim>\<open>return_exceptions\<close>: the first
  exception of a task is raised to the caller of \<^verbatim>\<open>gather_with_concurrency\<close>. No caller
  catches it, so it ends \<^verbatim>\<open>asyncio.run\<close>, which cancels the tasks that have not finished;
  here they are the ones not yet run. \<open>n\<close> is at least 1 (\<^verbatim>\<open>main\<close> refuses other values).
\<close>

definition sem_task :: "('w \<Rightarrow> (exc + 'a) \<times> 'w) \<Rightarrow> 'w \<Rightarrow> (exc + 'a) \<times> 'w" where
  "sem_task task = task"

fun run_tasks :: "('w \<Rightarrow> (exc + 'a) \<times> 'w) list \<Rightarrow> 'w \<Rightarrow> (exc + 'a list) \<times> 'w" where
  "run_tasks [] s = (Inr [], s)"
| "run_tasks (task # rest) s =
     (case task s of
        (Inl e, s') \<Rightarrow> (Inl e, s')
      | (Inr x, s') \<Rightarrow>
          (case run_tasks rest s' of
             (Inl e, s'') \<Rightarrow> (Inl e, s'')
           | (Inr xs, s'') \<Rightarrow> (Inr (x # xs), s'')))"

definition gather_with_concurrency ::
  "nat \<Rightarrow> ('w \<Rightarrow> (exc + 'a) \<times> 'w) list \<Rightarrow> 'w \<Rightarrow> (exc + 'a list) \<times> 'w" where
  "gather_with_concurrency n tasks = run_tasks (map sem_task tasks)"

section \<open>The stage executor\<close>

text \<open>
  \<open>traced st task\<close> is \<open>task\<close> with its start and its end (by return or by exception)
  written to the trace: the trace is not in the program, it records when each task of a
  stage runs.
\<close>

definition traced :: "stage \<Rightarrow> (world \<Rightarrow> 'a \<times> world) \<Rightarrow> world \<Rightarrow> 'a \<times> world" where
  "traced st task s =
     (case task (s\<lparr>trace := trace s @ [Started st]\<rparr>) of
        (r, s') \<Rightarrow> (r, s'\<lparr>trace := trace s' @ [Finished st]\<rparr>))"

text \<open>Sequencing of two awaits: an exception of the first skips the second.\<close>

definition and_then ::
  "('w \<Rightarrow> (exc + 'a) \<times> 'w) \<Rightarrow> ('a \<Rightarrow> 'w \<Rightarrow> (exc + 'b) \<times> 'w) \<Rightarrow> 'w \<Rightarrow> (exc + 'b) \<times> 'w" where
  "and_then m f s = (case m s of (Inl e, s') \<Rightarrow> (Inl e, s') | (Inr x, s') \<Rightarrow> f x s')"

text \<open>The arguments of \<^verbatim>\<open>download_and_make_epg\<close> that the stages read.\<close>

record config =
  parallel :: nat
  images_size :: int
  images_quality :: int
  base_url :: string

text \<open>The task lists, as the list comprehensions build them.\<close>

definition programs_tasks ::
  "env \<Rightarrow> Channel list \<Rightarrow> (world \<Rightarrow> (exc + Channel) \<times> world) list" where
  "programs_tasks E channels =
     map (\<lambda>channel. traced FetchPrograms (download_programs E channel)) channels"

definition detail_tasks :: "env \<Rightarrow> Channel \<Rightarrow> (world \<Rightarrow> (exc + Program) \<times> world) list" where
  "detail_tasks E channel =
     map (\<lambda>program. traced FetchDetails (download_program_detail E program))
       (programs channel)"

definition cast_tasks :: "env \<Rightarrow> Channel \<Rightarrow> (world \<Rightarrow> (exc + Program) \<times> world) list" where
  "cast_tasks E channel =
     map (\<lambda>program. traced FetchCast (download_program_cast E program)) (programs channel)"

definition images_tasks ::
  "env \<Rightarrow> config \<Rightarrow> Channel \<Rightarrow> (world \<Rightarrow> (exc + Program) \<times> world) list" where
  "images_tasks E cfg channel =
     map (\<lambda>program. traced FetchImages
            (download_program_images E program (images_size cfg) (images_quality cfg)
               (base_url cfg)))
       (programs channel)"

text \<open>One round of a \<^verbatim>\<open>for channel in channels\<close> loop: the batch of one channel.\<close>

definition channel_batch ::
  "nat \<Rightarrow> (Channel \<Rightarrow> (world \<Rightarrow> (exc + Program) \<times> world) list) \<Rightarrow>
   Channel \<Rightarrow> world \<Rightarrow> (exc + Channel) \<times> world" where
  "channel_batch n tasks_of channel =
     and_then (gather_with_concurrency n (tasks_of channel))
       (\<lambda>ps s. (Inr (channel\<lparr>programs := ps\<rparr>), s))"

definition stage_programs ::
  "env \<Rightarrow> config \<Rightarrow> Channel list \<Rightarrow> world \<Rightarrow> (exc + Channel list) \<times> world" where
  "stage_programs E cfg channels =
     gather_with_concurrency (parallel cfg) (programs_tasks E channels)"

definition stage_details ::
  "env \<Rightarrow> config \<Rightarrow> Channel list \<Rightarrow> world \<Rightarrow> (exc + Channel list) \<times> world" where
  "stage_details E cfg channels =
     run_tasks (map (channel_batch (parallel cfg) (detail_tasks E)) channels)"

definition stage_cast ::
  "env \<Rightarrow> config \<Rightarrow> Channel list \<Rightarrow> world \<Rightarrow> (exc + Channel list) \<times> world" where
  "stage_cast E cfg channels =
     run_tasks (map (channel_batch (parallel cfg) (cast_tasks E)) channels)"

text \<open>
  \<^verbatim>\<open>shutil.rmtree(root_dir() / 'images' / 'posters', ignore_errors=True)\<close>, for a
  directory that the process may delete.
\<close>

definition rmtree_posters :: "world \<Rightarrow> world" where
  "rmtree_posters s = s\<lparr>posters := Map.empty\<rparr>"

definition stage_images ::
  "env \<Rightarrow> config \<Rightarrow> Channel list \<Rightarrow> world \<Rightarrow> (exc + Channel list) \<times> world" where
  "stage_images E cfg channels s =
     run_tasks (map (channel_batch (parallel cfg) (images_tasks E cfg)) channels)
       (rmtree_posters s)"

text \<open>
  \<^verbatim>\<open>make_xmltv\<close> builds and writes the document from the channels; that it was reached, and
  with which channels, is all that is kept of it.
\<close>

definition make_xmltv :: "Channel list \<Rightarrow> world \<Rightarrow> (exc + unit) \<times> world" where
  "make_xmltv channels s = (Inr (), s\<lparr>xmltv := Some channels\<rparr>)"

text \<open>
  \<^verbatim>\<open>download_and_make_epg\<close>, from the channels that \<^verbatim>\<open>load_dict('channels.json')\<close>
  returned to the call of \<^verbatim>\<open>make_xmltv\<close>.
\<close>

definition download_and_make_epg ::
  "env \<Rightarrow> config \<Rightarrow> Channel list \<Rightarrow> world \<Rightarrow> (exc + unit) \<times> world" where
  "download_and_make_epg E cfg channels =
     and_then (stage_programs E cfg channels) (\<lambda>channels.
     and_then (stage_details E cfg channels) (\<lambda>channels.
     and_then (stage_cast E cfg channels) (\<lambda>channels.
     and_then (stage_images E cfg channels) (\<lambda>channels.
     and_then (traced FetchTags (download_program_tags E channels)) (\<lambda>channels.
     make_xmltv channels)))))"

text \<open>
  For the order of the stages in a trace: the position of a stage in the pipeline, the
  stage of an event, the events of \<open>k\<close> tasks of a stage run one after the other, and the
  number of tasks each stage has in a run from \<open>s\<close>: one for each channel in
  \<open>FetchPrograms\<close>, one for each program that \<open>FetchPrograms\<close> returned in
  \<open>FetchDetails\<close>, \<open>FetchCast\<close> and \<open>FetchImages\<close>, and the single bulk fetch of
  \<open>FetchTags\<close>.
\<close>

fun stage_rank :: "stage \<Rightarrow> nat" where
  "stage_rank FetchPrograms = 0"
| "stage_rank FetchDetails = 1"
| "stage_rank FetchCast = 2"
| "stage_rank FetchImages = 3"
| "stage_rank FetchTags = 4"

fun event_stage :: "event \<Rightarrow> stage" where
  "event_stage (Started st) = st"
| "event_stage (Finished st) = st"

definition task_events :: "nat \<Rightarrow> stage \<Rightarrow> event list" where
  "task_events k st = concat (replicate k [Started st, Finished st])"

definition n_programs :: "Channel list \<Rightarrow> nat" where
  "n_programs channels = sum_list (map (\<lambda>channel. length (programs channel)) channels)"

definition stage_tasks :: "env \<Rightarrow> config \<Rightarrow> Channel list \<Rightarrow> world \<Rightarrow> stage \<Rightarrow> nat" where
  "stage_tasks E cfg channels s st =
     (case st of
        FetchPrograms \<Rightarrow> length channels
      | FetchTags \<Rightarrow> 1
      | _ \<Rightarrow>
          (case stage_programs E cfg channels s of
             (Inr c1, s1) \<Rightarrow> n_programs c1
           | (Inl e, s1) \<Rightarrow> 0))"

text \<open>
  The paths below \<^verbatim>\<open>images/posters\<close> that the image stage writes to: one for each
  image of each program that has details.
\<close>

definition program_poster_paths :: "Program \<Rightarrow> string list" where
  "program_poster_paths p =
     (case details p of
        None \<Rightarrow> []
      | Some d \<Rightarrow> map (\<lambda>img. lstrip_slash (bucketPath img)) (images d))"

definition poster_paths :: "Channel list \<Rightarrow> string list" where
  "poster_paths channels =
     concat (map (\<lambda>channel. concat (map program_poster_paths (programs channel))) channels)"

section \<open>Example inputs\<close>

text \<open>
  A world with an empty cache, a configuration with one request at a time (so that the
  runs below are runs of the program, task by task), and environments in which the
  network always times out,
  breaks off with a payload error (at once, after two timeouts, or for the first request
  only), answers with an empty object, or answers every request; a channel with two
  showings of one programme, a programme with two images, and a world with a poster left
  by an earlier run.
\<close>

definition world0 :: world where
  "world0 = \<lparr>cache = Map.empty, clock = 1000, fetched = [], warnings = [],
              posters = Map.empty, trace = [], xmltv = None\<rparr>"

definition example_program :: "json \<Rightarrow> Program" where
  "example_program j =
     \<lparr>program_id = (case j of JInt i \<Rightarrow> i | _ \<Rightarrow> 0), start_timestamp = 1000,
      end_timestamp = 4600, name = ''News'', tags = [], details = None, cast = None\<rparr>"

definition example_image :: Image where
  "example_image =
     \<lparr>url = ''https://img.example/a.jpg'', width = 1920, height = 1080,
      bucketPath = ''/posters/a.jpg'', bucketType = ''remote''\<rparr>"

definition example_env :: "(nat \<Rightarrow> request \<Rightarrow> nat \<times> (exc + raw)) \<Rightarrow> env" where
  "example_env n =
     \<lparr>net = n,
      programs_loader =
        (\<lambda>r. case r of
               RJson (JList js) \<Rightarrow> Inr (PPrograms (map example_program js))
             | RJson _ \<Rightarrow> Inr (PPrograms [])
             | RBytes _ \<Rightarrow> Inl AttributeError),
      detail_loader = (\<lambda>r. Inr (PDetails \<lparr>mcoId = Some 7, images = [example_image]\<rparr>)),
      cast_loader = (\<lambda>r. Inr (PCast \<lparr>cast_id = ''0'', cast_items = []\<rparr>)),
      tags_loader = (\<lambda>r. Inr (PTags [((42, 1000), 5)])),
      resize = (\<lambda>sz q b. Inr b),
      open_image =
        (\<lambda>b. if b = [] then Inl UnidentifiedImageError else Inr (int (length b), 1)),
      writable = (\<lambda>p. True),
      poster_url = (\<lambda>b p. b @ ''/images/posters'' @ p),
      utcoffset = 0\<rparr>"

definition timeout_net :: "nat \<Rightarrow> request \<Rightarrow> nat \<times> (exc + raw)" where
  "timeout_net k r = (1, Inl TimeoutError)"

definition payload_error_net :: "nat \<Rightarrow> request \<Rightarrow> nat \<times> (exc + raw)" where
  "payload_error_net k r = (1, if k < 2 then Inl TimeoutError else Inl ClientPayloadError)"


definition empty_net :: "nat \<Rightarrow> request \<Rightarrow> nat \<times> (exc + raw)" where
  "empty_net k r = (1, Inr (RJson (JDict [])))"

definition ok_net :: "nat \<Rightarrow> request \<Rightarrow> nat \<times> (exc + raw)" where
  "ok_net k r =
     (1, case r of Get u h m t \<Rightarrow>
           if m = ''read'' then Inr (RBytes [1, 2, 3]) else Inr (RJson (JList [JInt 42])))"

definition example_url :: string where
  "example_url = ''http://123tv.live/epg/json/abc.json?_=1000''"

definition world1 :: world where
  "world1 = world0\<lparr>fetched := [Get example_url (Some HEADERS) ''json'' 1], clock := 1001\<rparr>"

definition example_channel :: Channel where
  "example_channel =
     \<lparr>tvguide_id = Some ''abc'', stream_id = ''abc'', channel_name = ''ABC'', language = ''en'',
      programs = [example_program (JInt 42),
                  (example_program (JInt 42))\<lparr>start_timestamp := 2000\<rparr>]\<rparr>"




definition example_config :: config where
  "example_config =
     \<lparr>parallel = 1, images_size = 720, images_quality = 80,
      base_url = ''https://cdn.example''\<rparr>"

definition details_down_net :: "nat \<Rightarrow> request \<Rightarrow> nat \<times> (exc + raw)" where
  "details_down_net k r =
     (1, case r of Get u h m t \<Rightarrow>
           if h = Some detail_headers then Inl TimeoutError
           else Inr (RJson (JList [JInt 42])))"

definition world_old :: world where
  "world_old = world0\<lparr>posters := [''posters/a.jpg'' \<mapsto> [1, 2, 3]]\<rparr>"

section \<open>The example inputs, evaluated\<close>

lemma example_env_sel:
  "net (example_env n) = n"
  "detail_loader (example_env n) r = Inr (PDetails \<lparr>mcoId = Some 7, images = [example_image]\<rparr>)"
  "cast_loader (example_env n) r = Inr (PCast \<lparr>cast_id = ''0'', cast_items = []\<rparr>)"
  "tags_loader (example_env n) r = Inr (PTags [((42, 1000), 5)])"
  "resize (example_env n) sz q b = Inr b"
  "open_image (example_env n) b =
     (if b = [] then Inl UnidentifiedImageError else Inr (int (length b), 1))"
  "writable (example_env n) p = True"
  "poster_url (example_env n) bu p = bu @ ''/images/posters'' @ p"
  "utcoffset (example_env n) = 0"
  by (simp_all add: example_env_def)

lemma example_programs_loader:
  "programs_loader (example_env n) (RJson (JList js)) = Inr (PPrograms (map example_program js))"
  "programs_loader (example_env n) (RJson (JDict kvs)) = Inr (PPrograms [])"
  by (simp_all add: example_env_def)

lemma world0_sel:
  "cache world0 = Map.empty" "clock world0 = 1000" "fetched world0 = []"
  "warnings world0 = []" "posters world0 = Map.empty" "trace world0 = []"
  "xmltv world0 = None"
  by (simp_all add: world0_def)

lemma default_args_sel:
  "headers default_args = None" "timeout default_args = 1"
  "timeout_increment default_args = 1" "timeout_max default_args = 10"
  "retries_max default_args = 10" "read_method default_args = ''json''"
  "extra_exceptions default_args = None" "loader default_args = None"
  "ret_default default_args = PNone"
  by (simp_all add: default_args_def)

lemma programs_args_sel:
  "headers (programs_args E) = Some HEADERS" "timeout (programs_args E) = 1"
  "read_method (programs_args E) = ''json''" "loader (programs_args E) = Some (programs_loader E)"
  "ret_default (programs_args E) = PPrograms []"
  by (simp_all add: programs_args_def default_args_def)

lemma world1_sel:
  "cache world1 = Map.empty" "clock world1 = 1001"
  "fetched world1 = [Get example_url (Some HEADERS) ''json'' 1]"
  by (simp_all add: world1_def world0_def)

lemmas example_simps = example_env_sel example_programs_loader world0_sel default_args_sel

section \<open>Properties of the retrying fetcher and the store\<close>

lemma attempt_fetched:
  "attempt E a u t s = (r, s') \<Longrightarrow> fetched s' = fetched s @ [Get u (headers a) (read_method a) t]"
  by (auto simp: attempt_def Let_def split: prod.splits sum.splits)

lemma attempt_frame:
  "attempt E a u t s = (r, s') \<Longrightarrow>
     cache s' = cache s \<and> warnings s' = warnings s \<and> posters s' = posters s
     \<and> trace s' = trace s \<and> xmltv s' = xmltv s \<and> clock s \<le> clock s'"
  by (auto simp: attempt_def Let_def split: prod.splits sum.splits)

lemma download_loop_exhaust:
  assumes "\<forall>t s'. length (fetched s) \<le> length (fetched s') \<longrightarrow>
             (\<exists>e. fst (attempt E a u t s') = Inl e \<and> is_exc_valid a e)"
  shows "\<exists>s'. download_loop E a u t retry s = (Inr (ret_default a), s')
           \<and> length (fetched s') = length (fetched s) + nat (retries_max a + 1 - retry) + 1
           \<and> warnings s' = warnings s @ [FailedDownload u]
           \<and> cache s' = cache s"
  using assms
proof (induction E a u t retry s rule: download_loop.induct)
  case (1 E a u t retry s)
  obtain r s1 where att: "attempt E a u t s = (r, s1)" by (cases "attempt E a u t s")
  from "1.prems" obtain e where e: "fst (attempt E a u t s) = Inl e" "is_exc_valid a e"
    by blast
  with att have r: "r = Inl e" by simp
  note fr = attempt_frame [OF att] attempt_fetched [OF att]
  show ?case
  proof (cases "retry > retries_max a")
    case True
    then show ?thesis using att r e fr
      by (subst download_loop.simps) (simp add: log_warning_def)
  next
    case False
    have later: "\<forall>t s'. length (fetched s1) \<le> length (fetched s') \<longrightarrow>
             (\<exists>e. fst (attempt E a u t s') = Inl e \<and> is_exc_valid a e)"
      using "1.prems" fr by simp
    from "1.IH" [of r s1 e "min (t + timeout_increment a) (timeout_max a)"] att r e False later
    obtain s' where s':
      "download_loop E a u (min (t + timeout_increment a) (timeout_max a)) (retry + 1) s1
         = (Inr (ret_default a), s')"
      "length (fetched s') = length (fetched s1) + nat (retries_max a + 1 - (retry + 1)) + 1"
      "warnings s' = warnings s1 @ [FailedDownload u]" "cache s' = cache s1"
      by auto
    have "nat (retries_max a + 1 - retry) = nat (retries_max a + 1 - (retry + 1)) + 1"
      using False by simp
    then show ?thesis using att r e fr False s'
      by (subst download_loop.simps) (simp add: Let_def)
  qed
qed

lemma download_loop_frame:
  "download_loop E a u t retry s = (r, s') \<Longrightarrow>
     cache s' = cache s \<and> posters s' = posters s \<and> trace s' = trace s
     \<and> xmltv s' = xmltv s \<and> clock s \<le> clock s'
     \<and> length (fetched s) < length (fetched s')"
proof (induction E a u t retry s arbitrary: r s' rule: download_loop.induct)
  case (1 E a u t retry s)
  obtain r1 s1 where att: "attempt E a u t s = (r1, s1)" by (cases "attempt E a u t s")
  note fr = attempt_frame [OF att] attempt_fetched [OF att]
  show ?case
  proof (cases r1)
    case (Inr v)
    with "1.prems" att fr show ?thesis
      by (subst (asm) download_loop.simps) auto
  next
    case (Inl e)
    show ?thesis
    proof (cases "is_exc_valid a e \<and> \<not> retry > retries_max a")
      case False
      with "1.prems" att fr Inl show ?thesis
        by (subst (asm) download_loop.simps)
          (auto simp: log_warning_def Let_def split: if_splits)
    next
      case True
      with "1.prems" att Inl
      have rec:
        "download_loop E a u (min (t + timeout_increment a) (timeout_max a)) (retry + 1) s1
           = (r, s')"
        by (subst (asm) download_loop.simps) (simp add: Let_def)
      from "1.IH" [of r1 s1 e "min (t + timeout_increment a) (timeout_max a)" r s']
        att Inl True rec
      show ?thesis using fr by simp
    qed
  qed
qed

lemma download_loop_raise:
  assumes "\<forall>i<k. \<forall>t s'. length (fetched s') = length (fetched s) + i \<longrightarrow>
             (\<exists>e'. fst (attempt E a u t s') = Inl e' \<and> is_exc_valid a e')"
    and "\<forall>t s'. length (fetched s') = length (fetched s) + k \<longrightarrow>
             fst (attempt E a u t s') = Inl e"
    and "\<not> is_exc_valid a e"
    and "retry + int k \<le> retries_max a + 1"
  shows "\<exists>s'. download_loop E a u t retry s = (Inl e, s')
           \<and> length (fetched s') = length (fetched s) + k + 1
           \<and> warnings s' = warnings s"
  using assms
proof (induction k arbitrary: t retry s)
  case 0
  obtain r1 s1 where att: "attempt E a u t s = (r1, s1)" by (cases "attempt E a u t s")
  note fr = attempt_frame [OF att] attempt_fetched [OF att]
  from "0.prems"(2) att have "r1 = Inl e" by (metis add.right_neutral fst_conv)
  with att fr "0.prems"(3) show ?case
    by (subst download_loop.simps) simp
next
  case (Suc k)
  obtain r1 s1 where att: "attempt E a u t s = (r1, s1)" by (cases "attempt E a u t s")
  note fr = attempt_frame [OF att] attempt_fetched [OF att]
  from Suc.prems(1) obtain e' where e': "fst (attempt E a u t s) = Inl e'" "is_exc_valid a e'"
    by (metis add.right_neutral zero_less_Suc)
  with att have r1: "r1 = Inl e'" by simp
  have le: "\<not> retry > retries_max a" using Suc.prems(4) by simp
  have A: "\<forall>i<k. \<forall>t s'. length (fetched s') = length (fetched s1) + i \<longrightarrow>
             (\<exists>e'. fst (attempt E a u t s') = Inl e' \<and> is_exc_valid a e')"
    using Suc.prems(1) fr by (auto simp: less_Suc_eq_0_disj)
  have B: "\<forall>t s'. length (fetched s') = length (fetched s1) + k \<longrightarrow>
             fst (attempt E a u t s') = Inl e"
    using Suc.prems(2) fr by simp
  have C: "(retry + 1) + int k \<le> retries_max a + 1" using Suc.prems(4) by simp
  from Suc.IH [OF A B Suc.prems(3) C, of "min (t + timeout_increment a) (timeout_max a)"]
  obtain s' where
    "download_loop E a u (min (t + timeout_increment a) (timeout_max a)) (retry + 1) s1
       = (Inl e, s')"
    "length (fetched s') = length (fetched s1) + k + 1" "warnings s' = warnings s1"
    by blast
  with att r1 e' le fr show ?case
    by (subst download_loop.simps) (simp add: Let_def)
qed

lemma download_loop_success:
  "attempt E a u t s = (Inr v, s') \<Longrightarrow> download_loop E a u t retry s = (Inr v, s')"
  by (subst download_loop.simps) simp

lemma download_with_retries_hit:
  "truthy (DISK_CACHE_get s u) \<Longrightarrow>
     download_with_retries E u a s = (Inr (DISK_CACHE_get s u), s)"
  by (simp add: download_with_retries_def download_cached_by_url_def)

lemma download_with_retries_miss:
  "\<not> truthy (DISK_CACHE_get s u) \<Longrightarrow>
     download_with_retries E u a s =
       (case download_loop E a u (timeout a) 1 s of
          (Inl e, s') \<Rightarrow> (Inl e, s')
        | (Inr v, s') \<Rightarrow>
            (Inr v, if truthy v then DISK_CACHE_set u v DISK_CACHE_EXPIRE s' else s'))"
  by (simp add: download_with_retries_def download_cached_by_url_def
      download_with_retries_func_def)

lemma DISK_CACHE_set_frame:
  "fetched (DISK_CACHE_set k v x s) = fetched s"
  "warnings (DISK_CACHE_set k v x s) = warnings s"
  "posters (DISK_CACHE_set k v x s) = posters s"
  "trace (DISK_CACHE_set k v x s) = trace s"
  "xmltv (DISK_CACHE_set k v x s) = xmltv s"
  "clock (DISK_CACHE_set k v x s) = clock s"
  "cache (DISK_CACHE_set k v x s) = (cache s)(k \<mapsto> (v, clock s + x))"
  by (simp_all add: DISK_CACHE_set_def)

text \<open>
  Claim C2. For every \<open>retries_max = r \<ge> 0\<close>, a call of \<^verbatim>\<open>download_with_retries\<close> that finds
  nothing usable in the cache and whose every attempt raises an exception of the retryable
  set makes exactly \<open>r + 1\<close> network attempts, logs one warning and returns
  \<open>ret_default\<close> instead of raising.
\<close>

theorem retries_exhausted_returns_default:
  assumes miss: "\<not> truthy (DISK_CACHE_get s u)"
    and r: "0 \<le> retries_max a"
    and fail: "\<forall>t s'. length (fetched s) \<le> length (fetched s') \<longrightarrow>
                 (\<exists>e. fst (attempt E a u t s') = Inl e \<and> is_exc_valid a e)"
  shows "\<exists>s'. download_with_retries E u a s = (Inr (ret_default a), s')
           \<and> int (length (fetched s')) = int (length (fetched s)) + retries_max a + 1
           \<and> warnings s' = warnings s @ [FailedDownload u]"
proof -
  from download_loop_exhaust [OF fail, of "timeout a" 1]
  obtain s1 where s1: "download_loop E a u (timeout a) 1 s = (Inr (ret_default a), s1)"
    "length (fetched s1) = length (fetched s) + nat (retries_max a + 1 - 1) + 1"
    "warnings s1 = warnings s @ [FailedDownload u]"
    by blast
  from s1(2) r have "int (length (fetched s1)) = int (length (fetched s)) + retries_max a + 1"
    by simp
  with s1 show ?thesis
    by (simp add: download_with_retries_miss [OF miss] DISK_CACHE_set_frame)
qed

theorem retries_exhausted_returns_default_witness:
  "\<exists>s'. download_with_retries (example_env timeout_net) ''http://x''
           (default_args\<lparr>retries_max := 2\<rparr>) world0 = (Inr PNone, s')
        \<and> int (length (fetched s')) = 3
        \<and> warnings s' = [FailedDownload ''http://x'']"
proof -
  have miss: "\<not> truthy (DISK_CACHE_get world0 ''http://x'')"
    by (simp add: DISK_CACHE_get_def example_simps)
  have r: "0 \<le> retries_max (default_args\<lparr>retries_max := 2\<rparr>)"
    by simp
  have fail: "\<forall>t s'. length (fetched world0) \<le> length (fetched s') \<longrightarrow>
      (\<exists>e. fst (attempt (example_env timeout_net) (default_args\<lparr>retries_max := 2\<rparr>)
                  ''http://x'' t s') = Inl e
           \<and> is_exc_valid (default_args\<lparr>retries_max := 2\<rparr>) e)"
    by (simp add: attempt_def timeout_net_def is_exc_valid_def exceptions_def isinstance_def
        example_simps)
  from retries_exhausted_returns_default [OF miss r fail] show ?thesis
    by (simp add: example_simps)
qed

text \<open>
  Claim C4. If an attempt inside \<^verbatim>\<open>download_with_retries\<close> (the first, or one after \<open>k\<close>
  retried failures) raises an exception outside the retryable set (the built-in list plus
  \<open>extra_exceptions\<close>), that exception reaches the caller at once: the call has made
  \<open>k + 1\<close> attempts and no more, logged nothing and stored nothing.
\<close>

theorem non_retryable_exception_propagates:
  assumes miss: "\<not> truthy (DISK_CACHE_get s u)"
    and before: "\<forall>i<k. \<forall>t s'. length (fetched s') = length (fetched s) + i \<longrightarrow>
             (\<exists>e'. fst (attempt E a u t s') = Inl e' \<and> is_exc_valid a e')"
    and raised: "\<forall>t s'. length (fetched s') = length (fetched s) + k \<longrightarrow>
             fst (attempt E a u t s') = Inl e"
    and fatal: "\<not> is_exc_valid a e"
    and k: "int k \<le> retries_max a"
  shows "\<exists>s'. download_with_retries E u a s = (Inl e, s')
           \<and> length (fetched s') = length (fetched s) + k + 1
           \<and> warnings s' = warnings s \<and> cache s' = cache s"
proof -
  from k have "1 + int k \<le> retries_max a + 1" by simp
  from download_loop_raise [OF before raised fatal this, of "timeout a"]
  obtain s1 where s1: "download_loop E a u (timeout a) 1 s = (Inl e, s1)"
    "length (fetched s1) = length (fetched s) + k + 1" "warnings s1 = warnings s"
    by blast
  from download_loop_frame [OF s1(1)] have "cache s1 = cache s" by simp
  with s1 show ?thesis
    by (simp add: download_with_retries_miss [OF miss])
qed

theorem non_retryable_exception_propagates_witness:
  "\<exists>s'. download_with_retries (example_env payload_error_net) ''http://x'' default_args world0
           = (Inl ClientPayloadError, s')
        \<and> length (fetched s') = 3 \<and> warnings s' = [] \<and> cache s' = Map.empty"
proof -
  have miss: "\<not> truthy (DISK_CACHE_get world0 ''http://x'')"
    by (simp add: DISK_CACHE_get_def example_simps)
  have before: "\<forall>i<2. \<forall>t s'. length (fetched s') = length (fetched world0) + i \<longrightarrow>
      (\<exists>e'. fst (attempt (example_env payload_error_net) default_args ''http://x'' t s') = Inl e'
           \<and> is_exc_valid default_args e')"
    by (simp add: attempt_def payload_error_net_def is_exc_valid_def exceptions_def
        isinstance_def example_simps)
  have raised: "\<forall>t s'. length (fetched s') = length (fetched world0) + 2 \<longrightarrow>
      fst (attempt (example_env payload_error_net) default_args ''http://x'' t s')
        = Inl ClientPayloadError"
    by (simp add: attempt_def payload_error_net_def example_simps)
  have fatal: "\<not> is_exc_valid default_args ClientPayloadError"
    by (simp add: is_exc_valid_def exceptions_def isinstance_def example_simps)
  have k: "int 2 \<le> retries_max default_args"
    by (simp add: example_simps)
  from non_retryable_exception_propagates [OF miss before raised fatal k] show ?thesis
    by (simp add: example_simps numeral_3_eq_3)
qed

lemma falsy_result_is_miss:
  assumes "download_with_retries E u a s = (Inr v, s')" and "\<not> truthy v"
  shows "\<not> truthy (DISK_CACHE_get s u)"
  using assms by (auto simp: download_with_retries_hit)

lemma DISK_CACHE_get_later:
  assumes "\<not> truthy (DISK_CACHE_get s u)" and "cache s2 u = cache s u" and "clock s \<le> clock s2"
  shows "\<not> truthy (DISK_CACHE_get s2 u)"
  using assms by (auto simp: DISK_CACHE_get_def split: option.splits if_splits)

lemma download_with_retries_miss_fetches:
  assumes "\<not> truthy (DISK_CACHE_get s u)"
  shows "length (fetched s) < length (fetched (snd (download_with_retries E u a s)))"
proof -
  obtain r s1 where l: "download_loop E a u (timeout a) 1 s = (r, s1)"
    by (cases "download_loop E a u (timeout a) 1 s")
  from download_loop_frame [OF l] have "length (fetched s) < length (fetched s1)" by simp
  with l show ?thesis
    by (cases r) (simp_all add: download_with_retries_miss [OF assms] DISK_CACHE_set_frame)
qed

lemma download_with_retries_cache:
  assumes "download_with_retries E u a s = (r, s')"
  shows "cache s' = cache s
         \<or> (\<exists>v. r = Inr v \<and> truthy v
                \<and> cache s' = (cache s)(u \<mapsto> (v, clock s' + DISK_CACHE_EXPIRE)))"
proof (cases "truthy (DISK_CACHE_get s u)")
  case True
  with assms show ?thesis by (simp add: download_with_retries_hit)
next
  case False
  obtain r1 s1 where l: "download_loop E a u (timeout a) 1 s = (r1, s1)"
    by (cases "download_loop E a u (timeout a) 1 s")
  from download_loop_frame [OF l] have c: "cache s1 = cache s" by simp
  from assms l c show ?thesis
    by (cases r1)
      (auto simp: download_with_retries_miss [OF False] DISK_CACHE_set_frame split: if_splits)
qed

text \<open>
  Claim C9. \<^verbatim>\<open>download_cached_by_url\<close> writes to the cache only a truthy result, under
  the URL of the call: every entry of the cache after a call of \<^verbatim>\<open>download_with_retries\<close>
  was there before or is that truthy result. A falsy result, such as the \<open>ret_default\<close>
  \<^verbatim>\<open>None\<close> or \<^verbatim>\<open>[]\<close> after the retries are used up, leaves the cache as it was, and a
  later call for the same URL goes to the network again.
\<close>

theorem cache_write_only_truthy:
  assumes call: "download_with_retries E u a s = (r, s')"
  shows "(\<forall>k v x. cache s' k = Some (v, x) \<longrightarrow>
            cache s k = Some (v, x) \<or> (k = u \<and> r = Inr v \<and> truthy v))
       \<and> (\<forall>v. r = Inr v \<and> \<not> truthy v \<longrightarrow>
            cache s' = cache s
            \<and> (\<forall>E2 a2 (s2::world). cache s2 = cache s' \<and> clock s' \<le> clock s2 \<longrightarrow>
                 length (fetched s2) < length (fetched (snd (download_with_retries E2 u a2 s2)))))"
proof (intro conjI allI impI)
  fix k v x assume "cache s' k = Some (v, x)"
  with download_with_retries_cache [OF call]
  show "cache s k = Some (v, x) \<or> (k = u \<and> r = Inr v \<and> truthy v)"
    by (auto split: if_splits)
next
  fix v assume v: "r = Inr v \<and> \<not> truthy v"
  with download_with_retries_cache [OF call] show c: "cache s' = cache s" by auto
  fix E2 a2 and s2 :: world assume s2: "cache s2 = cache s' \<and> clock s' \<le> clock s2"
  from call v have miss: "\<not> truthy (DISK_CACHE_get s u)"
    by (auto dest: falsy_result_is_miss)
  have "clock s \<le> clock s'"
  proof -
    obtain r1 s1 where l: "download_loop E a u (timeout a) 1 s = (r1, s1)"
      by (cases "download_loop E a u (timeout a) 1 s")
    from download_loop_frame [OF l] have "clock s \<le> clock s1" by simp
    with call l show ?thesis
      by (cases r1)
        (auto simp: download_with_retries_miss [OF miss] DISK_CACHE_set_frame
          split: if_splits)
  qed
  with s2 c have "\<not> truthy (DISK_CACHE_get s2 u)"
    by (intro DISK_CACHE_get_later [OF miss]) auto
  then show "length (fetched s2) < length (fetched (snd (download_with_retries E2 u a2 s2)))"
    by (rule download_with_retries_miss_fetches)
qed

theorem cache_write_only_truthy_witness:
  "cache (snd (download_with_retries (example_env timeout_net) example_url default_args world0))
     = Map.empty
   \<and> length (fetched (snd (download_with_retries (example_env timeout_net) example_url
                              default_args world0)))
     < length (fetched (snd (download_with_retries (example_env timeout_net) example_url
          default_args
          (snd (download_with_retries (example_env timeout_net) example_url
                  default_args world0)))))"
proof -
  let ?E = "example_env timeout_net"
  let ?s1 = "snd (download_with_retries ?E example_url default_args world0)"
  have fail: "\<forall>t s'. length (fetched world0) \<le> length (fetched s') \<longrightarrow>
      (\<exists>e. fst (attempt ?E default_args example_url t s') = Inl e \<and> is_exc_valid default_args e)"
    by (simp add: attempt_def timeout_net_def is_exc_valid_def exceptions_def isinstance_def
        example_simps)
  have miss: "\<not> truthy (DISK_CACHE_get world0 example_url)"
    by (simp add: DISK_CACHE_get_def example_simps)
  from download_loop_exhaust [OF fail, of "timeout default_args" 1]
  obtain s' where "download_loop ?E default_args example_url (timeout default_args) 1 world0
      = (Inr (ret_default default_args), s')"
    by blast
  then have call: "download_with_retries ?E example_url default_args world0 = (Inr PNone, ?s1)"
    by (simp add: download_with_retries_miss [OF miss] example_simps)
  from cache_write_only_truthy [OF call] show ?thesis
    by (simp add: example_simps)
qed

lemma download_with_retries_fetch_ok:
  assumes "\<not> truthy (DISK_CACHE_get s u)" and "attempt E a u (timeout a) s = (Inr v, s')"
  shows "download_with_retries E u a s =
           (Inr v, if truthy v then DISK_CACHE_set u v DISK_CACHE_EXPIRE s' else s')"
  using assms by (simp add: download_with_retries_miss download_loop_success)

text \<open>
  Claim C3, as stated, fails: a fetch that succeeds with a falsy post-loader result is not
  stored. Here the programme list of a channel comes back empty; the call succeeds with
  \<^verbatim>\<open>[]\<close> after one attempt, and the next call for the same URL, within the TTL, goes to
  the network again.
\<close>

theorem empty_result_not_cached_counterexample:
  "download_with_retries (example_env empty_net) example_url
       (programs_args (example_env empty_net)) world0 = (Inr (PPrograms []), world1)
   \<and> attempt (example_env empty_net) (programs_args (example_env empty_net)) example_url 1 world0
       = (Inr (PPrograms []), world1)
   \<and> clock world1 < clock world1 + DISK_CACHE_EXPIRE
   \<and> fetched (snd (download_with_retries (example_env empty_net) example_url
                     (programs_args (example_env empty_net)) world1)) \<noteq> fetched world1"
proof -
  let ?E = "example_env empty_net"
  have miss0: "\<not> truthy (DISK_CACHE_get world0 example_url)"
    by (simp add: DISK_CACHE_get_def example_simps)
  have att: "attempt ?E (programs_args ?E) example_url 1 world0 = (Inr (PPrograms []), world1)"
    by (simp add: attempt_def empty_net_def the_loader_def programs_args_sel example_simps
        world1_def)
  then have att': "attempt ?E (programs_args ?E) example_url (timeout (programs_args ?E)) world0
      = (Inr (PPrograms []), world1)"
    by (simp add: programs_args_sel)
  have first: "download_with_retries ?E example_url (programs_args ?E) world0
      = (Inr (PPrograms []), world1)"
    using download_with_retries_fetch_ok [OF miss0 att'] by simp
  have miss1: "\<not> truthy (DISK_CACHE_get world1 example_url)"
    by (simp add: DISK_CACHE_get_def world1_sel)
  from download_with_retries_miss_fetches [OF miss1, of ?E "programs_args ?E"]
  have "fetched (snd (download_with_retries ?E example_url (programs_args ?E) world1))
      \<noteq> fetched world1"
    by auto
  with first att show ?thesis
    by (simp add: DISK_CACHE_EXPIRE_def)
qed

text \<open>
  Claim C3, amended. After a call of \<^verbatim>\<open>download_with_retries\<close> that found nothing usable
  in the cache and returned a truthy value, that value is in the cache under the URL with
  the expiry \<open>DISK_CACHE_EXPIRE\<close> ahead; a second call for the same URL before that time,
  with the entry still in place, returns an equal value and leaves the world as it is: it
  makes no network attempt.
\<close>

theorem second_fetch_hits_cache:
  assumes miss: "\<not> truthy (DISK_CACHE_get s u)"
    and call: "download_with_retries E u a s = (Inr v, s1)"
    and v: "truthy v"
    and same: "cache s2 u = cache s1 u"
    and ttl: "clock s2 < clock s1 + DISK_CACHE_EXPIRE"
  shows "cache s1 u = Some (v, clock s1 + DISK_CACHE_EXPIRE)
       \<and> download_with_retries E2 u a2 s2 = (Inr v, s2)"
proof -
  obtain r1 s' where l: "download_loop E a u (timeout a) 1 s = (r1, s')"
    by (cases "download_loop E a u (timeout a) 1 s")
  from call l v have c: "cache s1 u = Some (v, clock s1 + DISK_CACHE_EXPIRE)"
    by (cases r1)
      (auto simp: download_with_retries_miss [OF miss] DISK_CACHE_set_frame split: if_splits)
  with same ttl have "DISK_CACHE_get s2 u = v"
    by (simp add: DISK_CACHE_get_def)
  with v c show ?thesis
    by (simp add: download_with_retries_hit)
qed

theorem second_fetch_hits_cache_witness:
  "download_with_retries (example_env timeout_net) example_url default_args
     ((snd (download_with_retries (example_env ok_net) example_url
              (programs_args (example_env ok_net)) world0))\<lparr>clock := 1001 + 3600\<rparr>)
   = (Inr (PPrograms [example_program (JInt 42)]),
      (snd (download_with_retries (example_env ok_net) example_url
              (programs_args (example_env ok_net)) world0))\<lparr>clock := 1001 + 3600\<rparr>)"
proof -
  let ?E = "example_env ok_net"
  let ?v = "PPrograms [example_program (JInt 42)]"
  let ?s1 = "snd (download_with_retries ?E example_url (programs_args ?E) world0)"
  have miss: "\<not> truthy (DISK_CACHE_get world0 example_url)"
    by (simp add: DISK_CACHE_get_def example_simps)
  have att: "attempt ?E (programs_args ?E) example_url (timeout (programs_args ?E)) world0
      = (Inr ?v, world1)"
    by (simp add: attempt_def ok_net_def the_loader_def programs_args_sel example_simps
        world1_def)
  have call: "download_with_retries ?E example_url (programs_args ?E) world0 = (Inr ?v, ?s1)"
    using download_with_retries_fetch_ok [OF miss att] by simp
  have s1: "?s1 = DISK_CACHE_set example_url ?v DISK_CACHE_EXPIRE world1"
    using download_with_retries_fetch_ok [OF miss att] by simp
  have v: "truthy ?v" by simp
  have same: "cache (?s1\<lparr>clock := 1001 + 3600\<rparr>) example_url = cache ?s1 example_url"
    by simp
  have ttl: "clock (?s1\<lparr>clock := 1001 + 3600\<rparr>) < clock ?s1 + DISK_CACHE_EXPIRE"
    by (simp add: s1 DISK_CACHE_set_frame world1_sel DISK_CACHE_EXPIRE_def)
  from second_fetch_hits_cache [OF miss call v same ttl] show ?thesis
    by simp
qed

section \<open>Properties of the tasks\<close>

subsection \<open>Tags\<close>

lemma mem_flagged:
  "distinct (map fst items) \<Longrightarrow>
     k \<in> set (map fst (filter (\<lambda>(k, v). P v) items))
       \<longleftrightarrow> (\<exists>v. map_of items k = Some v \<and> P v)"
  by (auto simp: image_iff)

lemma tag_program_eq:
  assumes "distinct (map fst items)"
  shows "tag_program (set (map fst (filter (\<lambda>(k, v). v AND 4 \<noteq> 0) items)))
           (set (map fst (filter (\<lambda>(k, v). v AND 1 \<noteq> 0) items))) p
         = p\<lparr>tags := tags p @
               (case map_of items (program_id p, start_timestamp p) of
                  None \<Rightarrow> []
                | Some v \<Rightarrow> (if v AND 4 \<noteq> 0 then [''new''] else [])
                            @ (if v AND 1 \<noteq> 0 then [''live''] else []))\<rparr>"
  unfolding tag_program_def Let_def mem_flagged [OF assms]
  by (cases "map_of items (program_id p, start_timestamp p)") auto

text \<open>
  Claim C6. When the bulk fetch of \<^verbatim>\<open>download_program_tags\<close> returns a dictionary
  (\<open>items\<close>, no key twice), every program of every channel gets appended \<^verbatim>\<open>'new'\<close> if
  the dictionary maps its pair \<open>(id, start_timestamp)\<close> to a value with bit \<open>0b100\<close> set,
  then \<^verbatim>\<open>'live'\<close> if that value has bit \<open>0b1\<close> set; a program whose pair is no key of
  the dictionary (the same id at another start time, say) gets no tag. Nothing else
  changes.
\<close>

theorem tags_follow_bulk_result:
  assumes fetch: "download_with_retries E (tags_url E s) (tags_args E) s = (Inr (PTags items), s')"
    and dict: "distinct (map fst items)"
  shows "download_program_tags E channels s =
           (Inr (map (\<lambda>channel. channel\<lparr>programs :=
                    map (\<lambda>p. p\<lparr>tags := tags p @
                           (case map_of items (program_id p, start_timestamp p) of
                              None \<Rightarrow> []
                            | Some v \<Rightarrow> (if v AND 4 \<noteq> 0 then [''new''] else [])
                                        @ (if v AND 1 \<noteq> 0 then [''live''] else []))\<rparr>)
                      (programs channel)\<rparr>) channels), s')"
proof (cases "items = []")
  case True
  then show ?thesis using fetch
    by (simp add: download_program_tags_def map_idI)
next
  case False
  have eq: "tag_program (set (map fst (filter (\<lambda>(k, v). v AND 4 \<noteq> 0) items)))
              (set (map fst (filter (\<lambda>(k, v). v AND 1 \<noteq> 0) items)))
            = (\<lambda>p. p\<lparr>tags := tags p @
                 (case map_of items (program_id p, start_timestamp p) of
                    None \<Rightarrow> []
                  | Some v \<Rightarrow> (if v AND 4 \<noteq> 0 then [''new''] else [])
                              @ (if v AND 1 \<noteq> 0 then [''live''] else []))\<rparr>)"
    by (rule ext) (rule tag_program_eq [OF dict])
  have step: "download_program_tags E channels s =
      (Inr (map (\<lambda>channel. channel\<lparr>programs :=
                   map (tag_program
                          (set (map fst (filter (\<lambda>(k, v). v AND 4 \<noteq> 0) items)))
                          (set (map fst (filter (\<lambda>(k, v). v AND 1 \<noteq> 0) items))))
                     (programs channel)\<rparr>) channels), s')"
    using fetch False by (simp add: download_program_tags_def Let_def)
  show ?thesis
    by (simp only: step eq)
qed

theorem tags_follow_bulk_result_witness:
  "download_program_tags (example_env ok_net) [example_channel] world0 =
     (Inr [example_channel\<lparr>programs :=
             [(example_program (JInt 42))\<lparr>tags := [''new'', ''live'']\<rparr>,
              (example_program (JInt 42))\<lparr>start_timestamp := 2000\<rparr>]\<rparr>],
      snd (download_with_retries (example_env ok_net) (tags_url (example_env ok_net) world0)
             (tags_args (example_env ok_net)) world0))"
proof -
  let ?E = "example_env ok_net"
  let ?u = "tags_url ?E world0"
  have miss: "\<not> truthy (DISK_CACHE_get world0 ?u)"
    by (simp add: DISK_CACHE_get_def example_simps)
  have "fst (attempt ?E (tags_args ?E) ?u (timeout (tags_args ?E)) world0)
      = Inr (PTags [((42, 1000), 5)])"
    by (simp add: attempt_def ok_net_def the_loader_def tags_args_def example_simps)
  then have att: "attempt ?E (tags_args ?E) ?u (timeout (tags_args ?E)) world0
      = (Inr (PTags [((42, 1000), 5)]),
         snd (attempt ?E (tags_args ?E) ?u (timeout (tags_args ?E)) world0))"
    by (metis prod.collapse)
  have fetch: "download_with_retries ?E ?u (tags_args ?E) world0
      = (Inr (PTags [((42, 1000), 5)]), snd (download_with_retries ?E ?u (tags_args ?E) world0))"
    using download_with_retries_fetch_ok [OF miss att] by simp
  have dict: "distinct (map fst [((42::int, 1000::int), 5::int)])"
    by simp
  from tags_follow_bulk_result [OF fetch dict, of "[example_channel]"] show ?thesis
    by (simp add: example_channel_def example_program_def)
qed

subsection \<open>Channels without a guide id\<close>

text \<open>
  Claim C7. For a channel whose \<^verbatim>\<open>tvguide_id\<close> is absent (\<^verbatim>\<open>None\<close>, or empty),
  \<^verbatim>\<open>download_programs\<close> sets the program list to \<^verbatim>\<open>[]\<close> and returns without touching
  the world: no fetch, no cache access. The channel then has no task in the batches of
  the detail, cast and image stages, and each of these batches returns at once.
\<close>

theorem channel_without_guide_id_skipped:
  assumes "tvguide_id channel = None \<or> tvguide_id channel = Some []"
  shows "download_programs E channel s = (Inr (channel\<lparr>programs := []\<rparr>), s)
       \<and> detail_tasks E (channel\<lparr>programs := []\<rparr>) = []
       \<and> cast_tasks E (channel\<lparr>programs := []\<rparr>) = []
       \<and> images_tasks E cfg (channel\<lparr>programs := []\<rparr>) = []
       \<and> channel_batch n (detail_tasks E) (channel\<lparr>programs := []\<rparr>) s
           = (Inr (channel\<lparr>programs := []\<rparr>), s)
       \<and> channel_batch n (cast_tasks E) (channel\<lparr>programs := []\<rparr>) s
           = (Inr (channel\<lparr>programs := []\<rparr>), s)
       \<and> channel_batch n (images_tasks E cfg) (channel\<lparr>programs := []\<rparr>) s
           = (Inr (channel\<lparr>programs := []\<rparr>), s)"
  using assms
  by (auto simp: download_programs_def detail_tasks_def cast_tasks_def images_tasks_def
      channel_batch_def and_then_def gather_with_concurrency_def)

theorem channel_without_guide_id_skipped_witness:
  "download_programs (example_env ok_net) (example_channel\<lparr>tvguide_id := None\<rparr>) world0
     = (Inr (example_channel\<lparr>tvguide_id := None, programs := []\<rparr>), world0)
   \<and> detail_tasks (example_env ok_net) (example_channel\<lparr>tvguide_id := None, programs := []\<rparr>)
     = []
   \<and> channel_batch 1 (cast_tasks (example_env ok_net))
       (example_channel\<lparr>tvguide_id := None, programs := []\<rparr>) world0
     = (Inr (example_channel\<lparr>tvguide_id := None, programs := []\<rparr>), world0)"
  using channel_without_guide_id_skipped
          [of "example_channel\<lparr>tvguide_id := None\<rparr>" "example_env ok_net" world0 _ 1]
  by simp

subsection \<open>Images\<close>







section \<open>Properties of the stage executor\<close>

subsection \<open>What the tasks and stages leave alone\<close>

lemma download_with_retries_frame:
  assumes "download_with_retries E u a s = (r, s')"
  shows "posters s' = posters s \<and> trace s' = trace s \<and> xmltv s' = xmltv s"
proof (cases "truthy (DISK_CACHE_get s u)")
  case True
  with assms show ?thesis by (simp add: download_with_retries_hit)
next
  case False
  obtain r1 s1 where l: "download_loop E a u (timeout a) 1 s = (r1, s1)"
    by (cases "download_loop E a u (timeout a) 1 s")
  from download_loop_frame [OF l] assms l show ?thesis
    by (cases r1)
      (auto simp: download_with_retries_miss [OF False] DISK_CACHE_set_frame split: if_splits)
qed

lemma download_programs_frame:
  "download_programs E channel s = (r, s') \<Longrightarrow>
     posters s' = posters s \<and> trace s' = trace s \<and> xmltv s' = xmltv s"
  by (auto simp: download_programs_def split: option.splits if_splits prod.splits sum.splits
      dest!: download_with_retries_frame)

lemma download_program_detail_frame:
  "download_program_detail E program s = (r, s') \<Longrightarrow>
     posters s' = posters s \<and> trace s' = trace s \<and> xmltv s' = xmltv s"
  by (auto simp: download_program_detail_def split: prod.splits sum.splits
      dest!: download_with_retries_frame)

lemma download_program_cast_frame:
  "download_program_cast E program s = (r, s') \<Longrightarrow>
     posters s' = posters s \<and> trace s' = trace s \<and> xmltv s' = xmltv s"
  by (auto simp: download_program_cast_def split: option.splits if_splits prod.splits sum.splits
      dest!: download_with_retries_frame)

lemma download_program_tags_frame:
  "download_program_tags E channels s = (r, s') \<Longrightarrow>
     posters s' = posters s \<and> trace s' = trace s \<and> xmltv s' = xmltv s"
  by (auto simp: download_program_tags_def Let_def
      split: if_splits prod.splits sum.splits pyval.splits
      dest!: download_with_retries_frame)

lemma process_image_frame:
  assumes "process_image E sz q bu img s = (r, s')"
  shows "trace s' = trace s \<and> xmltv s' = xmltv s
       \<and> (\<forall>p. p \<noteq> lstrip_slash (bucketPath img) \<longrightarrow> posters s' p = posters s p)"
  using assms
  by (auto simp: process_image_def Let_def
      split: prod.splits sum.splits if_splits
      dest!: download_with_retries_frame)

lemma image_step_frame:
  assumes "image_step E sz q bu img s = (img', s')"
  shows "trace s' = trace s \<and> xmltv s' = xmltv s
       \<and> (\<forall>p. p \<noteq> lstrip_slash (bucketPath img) \<longrightarrow> posters s' p = posters s p)"
  using assms
  by (auto simp: image_step_def log_warning_def split: prod.splits sum.splits
      dest!: process_image_frame)

lemma images_loop_frame:
  "images_loop E sz q bu imgs s = (imgs', s') \<Longrightarrow>
     trace s' = trace s \<and> xmltv s' = xmltv s
     \<and> (\<forall>p. p \<notin> set (map (\<lambda>img. lstrip_slash (bucketPath img)) imgs) \<longrightarrow>
            posters s' p = posters s p)"
proof (induction imgs arbitrary: s imgs' s')
  case Nil
  then show ?case by simp
next
  case (Cons img rest)
  obtain img' s1 where st: "image_step E sz q bu img s = (img', s1)"
    by (cases "image_step E sz q bu img s")
  obtain rest' s2 where lp: "images_loop E sz q bu rest s1 = (rest', s2)"
    by (cases "images_loop E sz q bu rest s1")
  from Cons.prems st lp have "s' = s2" by simp
  with image_step_frame [OF st] Cons.IH [OF lp] show ?case
    by simp
qed

lemma download_program_images_frame:
  assumes "download_program_images E p sz q bu s = (r, s')"
  shows "trace s' = trace s \<and> xmltv s' = xmltv s
       \<and> (\<forall>path. path \<notin> set (program_poster_paths p) \<longrightarrow> posters s' path = posters s path)"
  using assms
  by (auto simp: download_program_images_def program_poster_paths_def
      split: option.splits prod.splits dest!: images_loop_frame)

lemma traced_run:
  assumes "traced st task s = (r, s')"
  shows "\<exists>s2. task (s\<lparr>trace := trace s @ [Started st]\<rparr>) = (r, s2)
           \<and> s' = s2\<lparr>trace := trace s2 @ [Finished st]\<rparr>"
  using assms by (auto simp: traced_def split: prod.splits)

lemma run_tasks_invariant:
  assumes "\<And>task s r s'. task \<in> set tasks \<Longrightarrow> P s \<Longrightarrow> task s = (r, s') \<Longrightarrow> P s'"
    and "P s" and "run_tasks tasks s = (r, s')"
  shows "P s'"
  using assms
proof (induction tasks arbitrary: s r s')
  case Nil
  then show ?case by simp
next
  case (Cons task rest)
  obtain r1 s1 where t: "task s = (r1, s1)" by (cases "task s")
  have P1: "P s1" using Cons.prems(1) [of task s r1 s1] Cons.prems(2) t by simp
  show ?case
  proof (cases r1)
    case (Inl e)
    with Cons.prems(3) t P1 show ?thesis by simp
  next
    case (Inr x)
    obtain r2 s2 where rt: "run_tasks rest s1 = (r2, s2)" by (cases "run_tasks rest s1")
    have "P s2" using Cons.IH [OF _ P1 rt] Cons.prems(1) by auto
    with Cons.prems(3) t Inr rt show ?thesis by (cases r2) auto
  qed
qed

lemma channel_batch_run:
  "channel_batch n tasks_of channel s = (r, s') \<Longrightarrow>
     \<exists>r1. run_tasks (tasks_of channel) s = (r1, s')"
  by (auto simp: channel_batch_def and_then_def gather_with_concurrency_def sem_task_def [abs_def]
      split: prod.splits sum.splits)

lemma stage_images_posters:
  assumes "stage_images E cfg channels s = (r, s')"
  shows "\<forall>path. path \<notin> set (poster_paths channels) \<longrightarrow> posters s' path = None"
proof -
  let ?P = "\<lambda>s. \<forall>path. path \<notin> set (poster_paths channels) \<longrightarrow> posters s path = None"
  have task: "?P t'" if ch: "channel \<in> set channels" and p: "p \<in> set (programs channel)"
    and P: "?P t"
    and run: "traced FetchImages (download_program_images E p (images_size cfg)
                 (images_quality cfg) (base_url cfg)) t = (x, t')" for channel p t x t'
  proof -
    from traced_run [OF run] obtain s2 where
      s2: "download_program_images E p (images_size cfg) (images_quality cfg) (base_url cfg)
         (t\<lparr>trace := trace t @ [Started FetchImages]\<rparr>) = (x, s2)"
        "t' = s2\<lparr>trace := trace s2 @ [Finished FetchImages]\<rparr>"
      by blast
    from download_program_images_frame [OF s2(1)] s2(2)
    have "\<forall>path. path \<notin> set (program_poster_paths p) \<longrightarrow> posters t' path = posters t path"
      by simp
    moreover have "set (program_poster_paths p) \<subseteq> set (poster_paths channels)"
      using ch p by (auto simp: poster_paths_def)
    ultimately show ?thesis using P by (metis subsetD)
  qed
  have batch: "?P t'" if ch: "channel \<in> set channels" and P: "?P t"
    and run: "channel_batch (parallel cfg) (images_tasks E cfg) channel t = (x, t')"
    for channel t x t'
  proof -
    from channel_batch_run [OF run] obtain r1 where
      r1: "run_tasks (images_tasks E cfg channel) t = (r1, t')" by blast
    show ?thesis
    proof (rule run_tasks_invariant [where P = ?P, OF _ P r1])
      fix task u y u'
      assume "task \<in> set (images_tasks E cfg channel)" and Pu: "?P u" and tu: "task u = (y, u')"
      then obtain p where "p \<in> set (programs channel)"
        and "task = traced FetchImages (download_program_images E p (images_size cfg)
                 (images_quality cfg) (base_url cfg))"
        by (auto simp: images_tasks_def)
      with tu show "?P u'" using task [OF ch _ Pu] by blast
    qed
  qed
  have start: "?P (rmtree_posters s)" by (simp add: rmtree_posters_def)
  from assms have run: "run_tasks (map (channel_batch (parallel cfg) (images_tasks E cfg)) channels)
      (rmtree_posters s) = (r, s')"
    by (simp add: stage_images_def)
  show ?thesis
  proof (rule run_tasks_invariant [where P = ?P, OF _ start run])
    fix task u y u'
    assume "task \<in> set (map (channel_batch (parallel cfg) (images_tasks E cfg)) channels)"
      and Pu: "?P u" and tu: "task u = (y, u')"
    then obtain channel where "channel \<in> set channels"
      and "task = channel_batch (parallel cfg) (images_tasks E cfg) channel"
      by auto
    with tu show "?P u'" using batch [OF _ Pu] by blast
  qed
qed









lemma tags_task_frame:
  assumes "traced FetchTags (download_program_tags E channels) s = (r, s')"
  shows "xmltv s' = xmltv s \<and> posters s' = posters s"
  using traced_run [OF assms] by (auto dest!: download_program_tags_frame)

lemma download_and_make_epg_unfold:
  "download_and_make_epg E cfg channels s =
     (case stage_programs E cfg channels s of
        (Inl e, s1) \<Rightarrow> (Inl e, s1)
      | (Inr c1, s1) \<Rightarrow>
     (case stage_details E cfg c1 s1 of
        (Inl e, s2) \<Rightarrow> (Inl e, s2)
      | (Inr c2, s2) \<Rightarrow>
     (case stage_cast E cfg c2 s2 of
        (Inl e, s3) \<Rightarrow> (Inl e, s3)
      | (Inr c3, s3) \<Rightarrow>
     (case stage_images E cfg c3 s3 of
        (Inl e, s4) \<Rightarrow> (Inl e, s4)
      | (Inr c4, s4) \<Rightarrow>
     (case traced FetchTags (download_program_tags E c4) s4 of
        (Inl e, s5) \<Rightarrow> (Inl e, s5)
      | (Inr c5, s5) \<Rightarrow> (Inr (), s5\<lparr>xmltv := Some c5\<rparr>))))))"
  by (simp add: download_and_make_epg_def and_then_def make_xmltv_def
      split: prod.splits sum.splits)


subsection \<open>The posters directory\<close>

text \<open>
  Claim C10. When the run reaches the image stage (the three stages before it returned
  the channels \<open>c3\<close>), the posters directory is emptied before the first image task
  runs, and whatever the directory held at the start of the run, at the end of the run
  (however it ends) a file exists only at a path of an image of a program that has details
  in \<open>c3\<close>. A poster of an earlier run that is not written again is lost, the posters of
  programs whose detail fetch failed (no details, so no path) among them.
\<close>

theorem old_posters_are_lost:
  assumes c1: "stage_programs E cfg channels s = (Inr c1, s1)"
    and c2: "stage_details E cfg c1 s1 = (Inr c2, s2)"
    and c3: "stage_cast E cfg c2 s2 = (Inr c3, s3)"
    and run: "download_and_make_epg E cfg channels s = (r, s')"
    and path: "path \<notin> set (poster_paths c3)"
  shows "posters (rmtree_posters s3) = Map.empty
       \<and> stage_images E cfg c3 s3 =
           run_tasks (map (channel_batch (parallel cfg) (images_tasks E cfg)) c3)
             (rmtree_posters s3)
       \<and> posters s' path = None"
proof -
  obtain r4 s4 where c4: "stage_images E cfg c3 s3 = (r4, s4)"
    by (cases "stage_images E cfg c3 s3")
  from stage_images_posters [OF c4] path have gone: "posters s4 path = None" by simp
  have "posters s' path = None"
  proof (cases r4)
    case (Inl e)
    with run c1 c2 c3 c4 gone show ?thesis
      by (simp add: download_and_make_epg_unfold)
  next
    case (Inr c4')
    obtain r5 s5 where c5: "traced FetchTags (download_program_tags E c4') s4 = (r5, s5)"
      by (cases "traced FetchTags (download_program_tags E c4') s4")
    from tags_task_frame [OF c5] gone have "posters s5 path = None" by simp
    with run c1 c2 c3 c4 Inr c5 show ?thesis
      by (cases r5) (auto simp: download_and_make_epg_unfold)
  qed
  then show ?thesis
    by (simp add: rmtree_posters_def stage_images_def)
qed

lemma example_config_sel:
  "parallel example_config = 1" "images_size example_config = 720"
  "images_quality example_config = 80" "base_url example_config = ''https://cdn.example''"
  by (simp_all add: example_config_def)

lemma details_down_detail:
  assumes "cache s (detail_url p) = None"
  shows "fst (download_program_detail (example_env details_down_net) p s)
         = Inr (p\<lparr>details := None\<rparr>)"
proof -
  let ?E = "example_env details_down_net"
  let ?a = "detail_args ?E"
  let ?u = "detail_url p"
  from assms have miss: "\<not> truthy (DISK_CACHE_get s ?u)"
    by (simp add: DISK_CACHE_get_def)
  have fail: "\<forall>t s'. length (fetched s) \<le> length (fetched s') \<longrightarrow>
      (\<exists>e. fst (attempt ?E ?a ?u t s') = Inl e \<and> is_exc_valid ?a e)"
    by (simp add: attempt_def details_down_net_def detail_args_def is_exc_valid_def
        exceptions_def isinstance_def example_simps)
  from download_loop_exhaust [OF fail, of "timeout ?a" 1]
  obtain s1 where "download_loop ?E ?a ?u (timeout ?a) 1 s = (Inr (ret_default ?a), s1)"
    by blast
  then show ?thesis
    by (simp add: download_program_detail_def download_with_retries_miss [OF miss]
        detail_args_def default_args_sel the_details_def)
qed

theorem old_posters_are_lost_witness:
  "posters world_old ''posters/a.jpg'' = Some [1, 2, 3]
   \<and> poster_paths [example_channel\<lparr>programs := [example_program (JInt 42)]\<rparr>] = []
   \<and> posters (snd (download_and_make_epg (example_env details_down_net) example_config
        [example_channel] world_old)) ''posters/a.jpg'' = None"
proof -
  let ?E = "example_env details_down_net"
  let ?chs = "[example_channel]"
  let ?p = "example_program (JInt 42)"
  let ?c = "[example_channel\<lparr>programs := [?p]\<rparr>]"
  let ?r1 = "stage_programs ?E example_config ?chs world_old"
  let ?r2 = "stage_details ?E example_config ?c (snd ?r1)"
  let ?r3 = "stage_cast ?E example_config ?c (snd ?r2)"
  let ?run = "download_and_make_epg ?E example_config ?chs world_old"
  have f1: "fst ?r1 = Inr ?c" by code_simp
  have c1: "?r1 = (Inr ?c, snd ?r1)"
    by (rule prod_eqI) (simp_all only: fst_conv snd_conv f1)
  have miss: "cache (snd ?r1) (detail_url ?p) = None" by code_simp
  have same: "?p\<lparr>details := None\<rparr> = ?p"
    by (simp add: example_program_def)
  let ?s1 = "(snd ?r1)\<lparr>trace := trace (snd ?r1) @ [Started FetchDetails]\<rparr>"
  from details_down_detail [of ?s1 ?p] miss same
  have "fst (download_program_detail ?E ?p ?s1) = Inr ?p"
    by simp
  then obtain s2 where "download_program_detail ?E ?p ?s1 = (Inr ?p, s2)"
    by (cases "download_program_detail ?E ?p ?s1") simp
  then have f2: "fst ?r2 = Inr ?c"
    by (simp add: stage_details_def detail_tasks_def channel_batch_def and_then_def
        gather_with_concurrency_def sem_task_def traced_def)
  have c2: "?r2 = (Inr ?c, snd ?r2)"
    by (rule prod_eqI) (simp_all only: fst_conv snd_conv f2)
  have f3: "fst (stage_cast ?E example_config ?c t) = Inr ?c" for t
    by (simp add: stage_cast_def cast_tasks_def channel_batch_def and_then_def
        gather_with_concurrency_def sem_task_def traced_def download_program_cast_def
        example_program_def)
  have c3: "?r3 = (Inr ?c, snd ?r3)"
    by (rule prod_eqI) (simp_all only: fst_conv snd_conv f3)
  have run: "?run = (fst ?run, snd ?run)"
    by (rule prod.collapse [symmetric])
  have paths: "poster_paths ?c = []"
    by (simp add: poster_paths_def program_poster_paths_def example_program_def)
  then have path: "''posters/a.jpg'' \<notin> set (poster_paths ?c)"
    by simp
  have old: "posters world_old ''posters/a.jpg'' = Some [1, 2, 3]"
    by (simp add: world_old_def)
  from old_posters_are_lost [OF c1 c2 c3 run path] old paths show ?thesis
    by (simp only: simp_thms)
qed

subsection \<open>An exception of a task\<close>








subsection \<open>The stage barrier\<close>

lemma task_events_simps:
  "task_events 0 st = []"
  "task_events (Suc k) st = Started st # Finished st # task_events k st"
  by (simp_all add: task_events_def)

lemma task_events_add:
  "task_events (j + k) st = task_events j st @ task_events k st"
  by (simp add: task_events_def replicate_add)

lemma count_task_events:
  "count_list (task_events k st) (Started st') = (if st = st' then k else 0)"
  "count_list (task_events k st) (Finished st') = (if st = st' then k else 0)"
  by (induction k) (auto simp: task_events_simps)

lemma rank_task_events:
  "map (\<lambda>ev. stage_rank (event_stage ev)) (task_events k st) = replicate (2 * k) (stage_rank st)"
  by (induction k) (simp_all add: task_events_simps)

lemma set_task_events:
  "ev \<in> set (task_events k st) \<Longrightarrow> event_stage ev = st \<and> 0 < k"
  by (induction k) (auto simp: task_events_simps)

lemma traced_trace:
  assumes "traced st task s = (r, s')"
    and "\<And>t r t'. task t = (r, t') \<Longrightarrow> trace t' = trace t"
  shows "trace s' = trace s @ task_events 1 st"
proof -
  from traced_run [OF assms(1)] obtain s2 where
    "task (s\<lparr>trace := trace s @ [Started st]\<rparr>) = (r, s2)"
    "s' = s2\<lparr>trace := trace s2 @ [Finished st]\<rparr>" by blast
  with assms(2) [of "s\<lparr>trace := trace s @ [Started st]\<rparr>" r s2] show ?thesis
    by (simp add: task_events_def)
qed

lemma run_tasks_events:
  assumes step: "\<And>x t y t'. x \<in> set xs \<Longrightarrow> g x t = (y, t') \<Longrightarrow>
            \<exists>k\<le>m x. trace t' = trace t @ task_events k st
                   \<and> (\<forall>v. y = Inr v \<longrightarrow> k = m x \<and> m' v = m x)"
    and run: "run_tasks (map g xs) s = (r, s')"
  shows "\<exists>k\<le>sum_list (map m xs). trace s' = trace s @ task_events k st
           \<and> (\<forall>vs. r = Inr vs \<longrightarrow> k = sum_list (map m xs) \<and> map m' vs = map m xs)"
  using assms
proof (induction xs arbitrary: s r s')
  case Nil
  then show ?case by (auto simp: task_events_simps)
next
  case (Cons x xs)
  obtain y t where g: "g x s = (y, t)" by (cases "g x s")
  from Cons.prems(1) [of x s y t] g obtain k1 where
    k1: "k1 \<le> m x" "trace t = trace s @ task_events k1 st"
      "\<forall>v. y = Inr v \<longrightarrow> k1 = m x \<and> m' v = m x"
    by auto
  show ?case
  proof (cases y)
    case (Inl e)
    with Cons.prems(2) g have "r = Inl e" "s' = t" by simp_all
    with k1 show ?thesis
      by (intro exI [of _ k1]) simp
  next
    case (Inr v)
    obtain r2 t2 where rt: "run_tasks (map g xs) t = (r2, t2)"
      by (cases "run_tasks (map g xs) t")
    have "\<exists>k\<le>sum_list (map m xs). trace t2 = trace t @ task_events k st
           \<and> (\<forall>vs. r2 = Inr vs \<longrightarrow> k = sum_list (map m xs) \<and> map m' vs = map m xs)"
      by (rule Cons.IH [OF _ rt]) (use Cons.prems(1) in auto)
    then obtain k2 where
      k2: "k2 \<le> sum_list (map m xs)" "trace t2 = trace t @ task_events k2 st"
        "\<forall>vs. r2 = Inr vs \<longrightarrow> k2 = sum_list (map m xs) \<and> map m' vs = map m xs"
      by blast
    from Cons.prems(2) g Inr rt have s': "s' = t2"
      and r: "r = (case r2 of Inl e \<Rightarrow> Inl e | Inr vs \<Rightarrow> Inr (v # vs))"
      by (auto split: sum.splits)
    from k1 k2 Inr s' r show ?thesis
      by (intro exI [of _ "k1 + k2"]) (auto simp: task_events_add split: sum.splits)
  qed
qed

lemma traced_batch_events:
  assumes tr: "\<And>x t r t'. f x t = (r, t') \<Longrightarrow> trace t' = trace t"
    and run: "run_tasks (map (\<lambda>x. traced st (f x)) xs) s = (r, s')"
  shows "\<exists>k\<le>length xs. trace s' = trace s @ task_events k st
           \<and> (\<forall>vs. r = Inr vs \<longrightarrow> k = length xs \<and> length vs = length xs)"
proof -
  have "\<exists>k\<le>sum_list (map (\<lambda>_. 1) xs). trace s' = trace s @ task_events k st
           \<and> (\<forall>vs. r = Inr vs \<longrightarrow> k = sum_list (map (\<lambda>_. 1) xs)
                  \<and> map (\<lambda>_. 1::nat) vs = map (\<lambda>_. 1) xs)"
  proof (rule run_tasks_events [OF _ run])
    fix x t y t'
    assume "traced st (f x) t = (y, t')"
    from traced_trace [OF this tr]
    show "\<exists>k\<le>1. trace t' = trace t @ task_events k st
            \<and> (\<forall>v. y = Inr v \<longrightarrow> k = 1 \<and> (1::nat) = 1)"
      by (intro exI [of _ 1]) simp
  qed
  then show ?thesis
    by (auto simp: sum_list_triv dest: map_eq_imp_length_eq)
qed

lemma channel_batch_events:
  assumes tr: "\<And>x t r t'. f x t = (r, t') \<Longrightarrow> trace t' = trace t"
    and run: "channel_batch n (\<lambda>channel. map (\<lambda>p. traced st (f p)) (programs channel))
                channel s = (r, s')"
  shows "\<exists>k\<le>length (programs channel). trace s' = trace s @ task_events k st
           \<and> (\<forall>channel'. r = Inr channel' \<longrightarrow>
                  k = length (programs channel)
                  \<and> length (programs channel') = length (programs channel))"
proof -
  obtain r1 s1 where
    r1: "run_tasks (map (\<lambda>p. traced st (f p)) (programs channel)) s = (r1, s1)"
    by (cases "run_tasks (map (\<lambda>p. traced st (f p)) (programs channel)) s")
  with run have s': "s' = s1"
    and r: "r = (case r1 of Inl e \<Rightarrow> Inl e | Inr ps \<Rightarrow> Inr (channel\<lparr>programs := ps\<rparr>))"
    by (auto simp: channel_batch_def and_then_def gather_with_concurrency_def
        sem_task_def [abs_def] split: sum.splits)
  from traced_batch_events [OF tr r1] s' r show ?thesis
    by (auto split: sum.splits)
qed

lemma channel_batches_events:
  assumes tr: "\<And>x t r t'. f x t = (r, t') \<Longrightarrow> trace t' = trace t"
    and run: "run_tasks (map (channel_batch n (\<lambda>channel. map (\<lambda>p. traced st (f p))
                (programs channel))) channels) s = (r, s')"
  shows "\<exists>k\<le>n_programs channels. trace s' = trace s @ task_events k st
           \<and> (\<forall>channels'. r = Inr channels' \<longrightarrow>
                  k = n_programs channels \<and> n_programs channels' = n_programs channels)"
proof -
  have "\<exists>k\<le>sum_list (map (\<lambda>channel. length (programs channel)) channels).
          trace s' = trace s @ task_events k st
          \<and> (\<forall>vs. r = Inr vs \<longrightarrow>
                 k = sum_list (map (\<lambda>channel. length (programs channel)) channels)
                 \<and> map (\<lambda>channel. length (programs channel)) vs
                   = map (\<lambda>channel. length (programs channel)) channels)"
    by (rule run_tasks_events [OF _ run]) (rule channel_batch_events [OF tr])
  then show ?thesis
    by (auto simp: n_programs_def)
qed

lemma stage_programs_events:
  assumes "stage_programs E cfg channels s = (r, s')"
  shows "\<exists>k\<le>length channels. trace s' = trace s @ task_events k FetchPrograms
           \<and> (\<forall>c1. r = Inr c1 \<longrightarrow> k = length channels)"
proof -
  from assms have "run_tasks (map (\<lambda>channel. traced FetchPrograms (download_programs E channel))
      channels) s = (r, s')"
    by (simp add: stage_programs_def gather_with_concurrency_def programs_tasks_def
        sem_task_def [abs_def])
  from traced_batch_events [OF _ this] show ?thesis
    by (auto simp: download_programs_frame)
qed

lemma stage_details_events:
  assumes "stage_details E cfg channels s = (r, s')"
  shows "\<exists>k\<le>n_programs channels. trace s' = trace s @ task_events k FetchDetails
           \<and> (\<forall>channels'. r = Inr channels' \<longrightarrow>
                  k = n_programs channels \<and> n_programs channels' = n_programs channels)"
  using assms unfolding stage_details_def detail_tasks_def [abs_def]
  by (rule channel_batches_events [rotated]) (simp add: download_program_detail_frame)

lemma stage_cast_events:
  assumes "stage_cast E cfg channels s = (r, s')"
  shows "\<exists>k\<le>n_programs channels. trace s' = trace s @ task_events k FetchCast
           \<and> (\<forall>channels'. r = Inr channels' \<longrightarrow>
                  k = n_programs channels \<and> n_programs channels' = n_programs channels)"
  using assms unfolding stage_cast_def cast_tasks_def [abs_def]
  by (rule channel_batches_events [rotated]) (simp add: download_program_cast_frame)

lemma stage_images_events:
  assumes "stage_images E cfg channels s = (r, s')"
  shows "\<exists>k\<le>n_programs channels. trace s' = trace s @ task_events k FetchImages
           \<and> (\<forall>channels'. r = Inr channels' \<longrightarrow>
                  k = n_programs channels \<and> n_programs channels' = n_programs channels)"
proof -
  from assms have "run_tasks (map (channel_batch (parallel cfg)
      (\<lambda>channel. map (\<lambda>p. traced FetchImages (download_program_images E p (images_size cfg)
         (images_quality cfg) (base_url cfg))) (programs channel))) channels)
      (rmtree_posters s) = (r, s')"
    by (simp add: stage_images_def images_tasks_def [abs_def])
  from channel_batches_events [OF _ this] show ?thesis
    by (simp add: download_program_images_frame rmtree_posters_def)
qed

lemma tags_task_events:
  assumes "traced FetchTags (download_program_tags E channels) s = (r, s')"
  shows "trace s' = trace s @ task_events 1 FetchTags"
  using assms by (rule traced_trace) (simp add: download_program_tags_frame)

lemma epg_stops:
  "stage_programs E cfg channels s = (Inl e, s1) \<Longrightarrow>
     download_and_make_epg E cfg channels s = (Inl e, s1)"
  "stage_programs E cfg channels s = (Inr c1, s1) \<Longrightarrow>
   stage_details E cfg c1 s1 = (Inl e, s2) \<Longrightarrow>
     download_and_make_epg E cfg channels s = (Inl e, s2)"
  "stage_programs E cfg channels s = (Inr c1, s1) \<Longrightarrow>
   stage_details E cfg c1 s1 = (Inr c2, s2) \<Longrightarrow>
   stage_cast E cfg c2 s2 = (Inl e, s3) \<Longrightarrow>
     download_and_make_epg E cfg channels s = (Inl e, s3)"
  "stage_programs E cfg channels s = (Inr c1, s1) \<Longrightarrow>
   stage_details E cfg c1 s1 = (Inr c2, s2) \<Longrightarrow>
   stage_cast E cfg c2 s2 = (Inr c3, s3) \<Longrightarrow>
   stage_images E cfg c3 s3 = (Inl e, s4) \<Longrightarrow>
     download_and_make_epg E cfg channels s = (Inl e, s4)"
  "stage_programs E cfg channels s = (Inr c1, s1) \<Longrightarrow>
   stage_details E cfg c1 s1 = (Inr c2, s2) \<Longrightarrow>
   stage_cast E cfg c2 s2 = (Inr c3, s3) \<Longrightarrow>
   stage_images E cfg c3 s3 = (Inr c4, s4) \<Longrightarrow>
   traced FetchTags (download_program_tags E c4) s4 = (r5, s5) \<Longrightarrow>
     trace (snd (download_and_make_epg E cfg channels s)) = trace s5"
  by (simp_all add: download_and_make_epg_unfold split: sum.splits)

lemma epg_trace_shape:
  assumes run: "download_and_make_epg E cfg channels s = (r, s')"
  shows "\<exists>k1 k2 k3 k4 k5.
           trace s' = trace s @ task_events k1 FetchPrograms @ task_events k2 FetchDetails
             @ task_events k3 FetchCast @ task_events k4 FetchImages @ task_events k5 FetchTags
         \<and> (0 < k2 + k3 + k4 + k5 \<longrightarrow> k1 = stage_tasks E cfg channels s FetchPrograms)
         \<and> (0 < k3 + k4 + k5 \<longrightarrow> k2 = stage_tasks E cfg channels s FetchDetails)
         \<and> (0 < k4 + k5 \<longrightarrow> k3 = stage_tasks E cfg channels s FetchCast)
         \<and> (0 < k5 \<longrightarrow> k4 = stage_tasks E cfg channels s FetchImages)"
proof -
  obtain r1 s1 where st1: "stage_programs E cfg channels s = (r1, s1)"
    by (cases "stage_programs E cfg channels s")
  from stage_programs_events [OF st1] obtain k1 where
    k1: "trace s1 = trace s @ task_events k1 FetchPrograms"
      "\<forall>c1. r1 = Inr c1 \<longrightarrow> k1 = length channels" by blast
  show ?thesis
  proof (cases r1)
    case (Inl e)
    with run st1 have "s' = s1" by (simp add: epg_stops)
    with k1 show ?thesis
      by (intro exI [of _ k1] exI [of _ 0]) (simp add: task_events_simps)
  next
    case (Inr c1)
    with k1 have f1: "k1 = stage_tasks E cfg channels s FetchPrograms"
      by (simp add: stage_tasks_def)
    have full: "stage_tasks E cfg channels s FetchDetails = n_programs c1"
      "stage_tasks E cfg channels s FetchCast = n_programs c1"
      "stage_tasks E cfg channels s FetchImages = n_programs c1"
      using st1 Inr by (simp_all add: stage_tasks_def)
    obtain r2 s2 where st2: "stage_details E cfg c1 s1 = (r2, s2)"
      by (cases "stage_details E cfg c1 s1")
    from stage_details_events [OF st2] obtain k2 where
      k2: "trace s2 = trace s1 @ task_events k2 FetchDetails"
        "\<forall>c2. r2 = Inr c2 \<longrightarrow> k2 = n_programs c1 \<and> n_programs c2 = n_programs c1" by blast
    show ?thesis
    proof (cases r2)
      case (Inl e)
      with run st1 \<open>r1 = Inr c1\<close> st2 have "s' = s2"
        by (simp add: epg_stops)
      with k1 k2 f1 show ?thesis
        by (intro exI [of _ k1] exI [of _ k2] exI [of _ 0]) (simp add: task_events_simps)
    next
      case (Inr c2)
      with k2 full have f2: "k2 = stage_tasks E cfg channels s FetchDetails"
        and n2: "n_programs c2 = n_programs c1" by simp_all
      obtain r3 s3 where st3: "stage_cast E cfg c2 s2 = (r3, s3)"
        by (cases "stage_cast E cfg c2 s2")
      from stage_cast_events [OF st3] n2 obtain k3 where
        k3: "trace s3 = trace s2 @ task_events k3 FetchCast"
          "\<forall>c3. r3 = Inr c3 \<longrightarrow> k3 = n_programs c1 \<and> n_programs c3 = n_programs c1"
        by auto
      show ?thesis
      proof (cases r3)
        case (Inl e)
        with run st1 \<open>r1 = Inr c1\<close> st2 \<open>r2 = Inr c2\<close> st3 have "s' = s3"
          by (simp add: epg_stops)
        with k1 k2 k3 f1 f2 show ?thesis
          by (intro exI [of _ k1] exI [of _ k2] exI [of _ k3] exI [of _ 0])
            (simp add: task_events_simps)
      next
        case (Inr c3)
        with k3 full have f3: "k3 = stage_tasks E cfg channels s FetchCast"
          and n3: "n_programs c3 = n_programs c1" by simp_all
        obtain r4 s4 where st4: "stage_images E cfg c3 s3 = (r4, s4)"
          by (cases "stage_images E cfg c3 s3")
        from stage_images_events [OF st4] n3 obtain k4 where
          k4: "trace s4 = trace s3 @ task_events k4 FetchImages"
            "\<forall>c4. r4 = Inr c4 \<longrightarrow> k4 = n_programs c1"
          by auto
        show ?thesis
        proof (cases r4)
          case (Inl e)
          with run st1 \<open>r1 = Inr c1\<close> st2 \<open>r2 = Inr c2\<close> st3 \<open>r3 = Inr c3\<close> st4 have "s' = s4"
            by (simp add: epg_stops)
          with k1 k2 k3 k4 f1 f2 f3 show ?thesis
            by (intro exI [of _ k1] exI [of _ k2] exI [of _ k3] exI [of _ k4] exI [of _ 0])
              (simp add: task_events_simps)
        next
          case (Inr c4)
          with k4 full have f4: "k4 = stage_tasks E cfg channels s FetchImages" by simp
          obtain r5 s5 where st5: "traced FetchTags (download_program_tags E c4) s4 = (r5, s5)"
            by (cases "traced FetchTags (download_program_tags E c4) s4")
          from tags_task_events [OF st5]
          have k5: "trace s5 = trace s4 @ task_events 1 FetchTags" .
          from st1 \<open>r1 = Inr c1\<close> st2 \<open>r2 = Inr c2\<close> st3 \<open>r3 = Inr c3\<close> st4 Inr st5
          have "trace (snd (download_and_make_epg E cfg channels s)) = trace s5"
            by (simp add: epg_stops)
          with run have "trace s' = trace s5" by simp
          with k1 k2 k3 k4 k5 f1 f2 f3 f4 show ?thesis
            by (intro exI [of _ k1] exI [of _ k2] exI [of _ k3] exI [of _ k4] exI [of _ 1])
              simp
        qed
      qed
    qed
  qed
qed

lemma shape_barrier:
  fixes full :: "stage \<Rightarrow> nat"
  assumes new: "new = task_events k1 FetchPrograms @ task_events k2 FetchDetails
             @ task_events k3 FetchCast @ task_events k4 FetchImages @ task_events k5 FetchTags"
    and c1: "0 < k2 + k3 + k4 + k5 \<longrightarrow> k1 = full FetchPrograms"
    and c2: "0 < k3 + k4 + k5 \<longrightarrow> k2 = full FetchDetails"
    and c3: "0 < k4 + k5 \<longrightarrow> k3 = full FetchCast"
    and c4: "0 < k5 \<longrightarrow> k4 = full FetchImages"
  shows "sorted (map (\<lambda>ev. stage_rank (event_stage ev)) new)
       \<and> (\<forall>pre ev post st.
            new = pre @ ev # post \<and> stage_rank st < stage_rank (event_stage ev) \<longrightarrow>
              count_list pre (Started st) = full st
              \<and> count_list pre (Finished st) = full st
              \<and> count_list (ev # post) (Started st) = 0
              \<and> count_list (ev # post) (Finished st) = 0)"
proof (intro conjI allI impI)
  show sorted: "sorted (map (\<lambda>ev. stage_rank (event_stage ev)) new)"
    by (auto simp: new rank_task_events sorted_append)
  fix pre ev post st
  assume a: "new = pre @ ev # post \<and> stage_rank st < stage_rank (event_stage ev)"
  let ?rk = "\<lambda>ev. stage_rank (event_stage ev)"
  from sorted a have "\<forall>x\<in>set (ev # post). ?rk ev \<le> ?rk x"
    by (auto simp: sorted_append)
  with a have notin: "Started st \<notin> set (ev # post)" "Finished st \<notin> set (ev # post)"
    by fastforce+
  then show z1: "count_list (ev # post) (Started st) = 0"
    and z2: "count_list (ev # post) (Finished st) = 0"
    by (simp_all only: count_list_0_iff not_False_eq_True)
  have "ev \<in> set new" using a by simp
  then have reached: "(event_stage ev = FetchPrograms \<and> 0 < k1)
      \<or> (event_stage ev = FetchDetails \<and> 0 < k2)
      \<or> (event_stage ev = FetchCast \<and> 0 < k3)
      \<or> (event_stage ev = FetchImages \<and> 0 < k4)
      \<or> (event_stage ev = FetchTags \<and> 0 < k5)"
    unfolding new by (auto dest: set_task_events)
  have total: "count_list new (Started st) = count_list pre (Started st)"
    "count_list new (Finished st) = count_list pre (Finished st)"
    using a z1 z2 by (simp_all del: count_list.simps)
  define kf where "kf = (\<lambda>st. case st of FetchPrograms \<Rightarrow> k1 | FetchDetails \<Rightarrow> k2
      | FetchCast \<Rightarrow> k3 | FetchImages \<Rightarrow> k4 | FetchTags \<Rightarrow> k5)"
  have cnt: "count_list new (Started st) = kf st" "count_list new (Finished st) = kf st"
    by (cases st; simp add: new count_task_events kf_def)+
  from a have rk: "stage_rank st < stage_rank (event_stage ev)" by simp
  have "kf st = full st"
    using reached rk c1 c2 c3 c4
    by (cases st; cases "event_stage ev"; simp add: kf_def)
  with total cnt show "count_list pre (Started st) = full st"
    and "count_list pre (Finished st) = full st"
    by simp_all
qed

text \<open>
  Claim C5. The stages run behind a barrier. The events that a run adds to the trace are
  ordered by stage, and at every event of a stage each earlier stage is over: all of its
  tasks (\<open>stage_tasks\<close>: every channel for \<open>FetchPrograms\<close>, every program for
  \<open>FetchDetails\<close>, \<open>FetchCast\<close> and \<open>FetchImages\<close>) have started and finished
  before the event, and none of them starts or finishes after it. In particular every
  \<open>FetchPrograms\<close> task has finished before the first \<open>FetchDetails\<close> task starts.
\<close>

theorem stage_barrier:
  assumes run: "download_and_make_epg E cfg channels s = (r, s')"
  shows "\<exists>new. trace s' = trace s @ new
           \<and> sorted (map (\<lambda>ev. stage_rank (event_stage ev)) new)
           \<and> (\<forall>pre ev post st.
                new = pre @ ev # post \<and> stage_rank st < stage_rank (event_stage ev) \<longrightarrow>
                  count_list pre (Started st) = stage_tasks E cfg channels s st
                  \<and> count_list pre (Finished st) = stage_tasks E cfg channels s st
                  \<and> count_list (ev # post) (Started st) = 0
                  \<and> count_list (ev # post) (Finished st) = 0)"
proof -
  from epg_trace_shape [OF run] obtain k1 k2 k3 k4 k5 where
    tr: "trace s' = trace s @ task_events k1 FetchPrograms @ task_events k2 FetchDetails
             @ task_events k3 FetchCast @ task_events k4 FetchImages @ task_events k5 FetchTags"
    and c: "0 < k2 + k3 + k4 + k5 \<longrightarrow> k1 = stage_tasks E cfg channels s FetchPrograms"
      "0 < k3 + k4 + k5 \<longrightarrow> k2 = stage_tasks E cfg channels s FetchDetails"
      "0 < k4 + k5 \<longrightarrow> k3 = stage_tasks E cfg channels s FetchCast"
      "0 < k5 \<longrightarrow> k4 = stage_tasks E cfg channels s FetchImages"
    by (elim exE conjE)
  from shape_barrier [OF refl c] tr show ?thesis
    by blast
qed

theorem stage_barrier_witness:
  "trace (snd (download_and_make_epg (example_env ok_net) example_config
        [example_channel, example_channel\<lparr>tvguide_id := None\<rparr>] world0))
     = [Started FetchPrograms, Finished FetchPrograms, Started FetchPrograms,
        Finished FetchPrograms, Started FetchDetails, Finished FetchDetails,
        Started FetchCast, Finished FetchCast, Started FetchImages,
        Finished FetchImages, Started FetchTags, Finished FetchTags]
   \<and> stage_tasks (example_env ok_net) example_config
        [example_channel, example_channel\<lparr>tvguide_id := None\<rparr>] world0 FetchPrograms = 2
   \<and> stage_tasks (example_env ok_net) example_config
        [example_channel, example_channel\<lparr>tvguide_id := None\<rparr>] world0 FetchDetails = 1"
proof -
  let ?E = "example_env ok_net"
  let ?chs = "[example_channel, example_channel\<lparr>tvguide_id := None\<rparr>]"
  let ?run = "download_and_make_epg ?E example_config ?chs world0"
  let ?programs = "[Started FetchPrograms, Finished FetchPrograms, Started FetchPrograms,
        Finished FetchPrograms]"
  let ?details = "[Started FetchDetails, Finished FetchDetails]"
  let ?rest = "[Finished FetchCast, Started FetchImages,
        Finished FetchImages, Started FetchTags, Finished FetchTags]"
  have tr: "trace (snd ?run) = ?programs @ ?details @ Started FetchCast # ?rest"
    by code_simp
  have w0: "trace world0 = []"
    by (simp add: world0_sel)
  have run: "?run = (fst ?run, snd ?run)"
    by (rule prod.collapse [symmetric])
  from stage_barrier [OF run] obtain new where
    a: "trace (snd ?run) = trace world0 @ new"
    and bar: "\<forall>pre ev post st.
        new = pre @ ev # post \<and> stage_rank st < stage_rank (event_stage ev) \<longrightarrow>
          count_list pre (Started st) = stage_tasks ?E example_config ?chs world0 st
          \<and> count_list pre (Finished st) = stage_tasks ?E example_config ?chs world0 st
          \<and> count_list (ev # post) (Started st) = 0
          \<and> count_list (ev # post) (Finished st) = 0"
    by (elim exE conjE)
  have new: "new = ?programs @ ?details @ Started FetchCast # ?rest"
    using a by (simp only: tr w0 append_Nil)
  have e1: "new = ?programs @ Started FetchDetails
      # (Finished FetchDetails # Started FetchCast # ?rest)"
    by (simp only: new append.simps)
  have e2: "new = (?programs @ ?details) @ Started FetchCast # ?rest"
    by (simp only: new append.simps)
  have r1: "stage_rank FetchPrograms < stage_rank (event_stage (Started FetchDetails))"
    by simp
  have r2: "stage_rank FetchDetails < stage_rank (event_stage (Started FetchCast))"
    by simp
  from bar [rule_format, OF conjI [OF e1 r1]]
  have p: "stage_tasks ?E example_config ?chs world0 FetchPrograms = 2"
    by simp
  from bar [rule_format, OF conjI [OF e2 r2]]
  have d: "stage_tasks ?E example_config ?chs world0 FetchDetails = 1"
    by simp
  from tr p d show ?thesis by (simp only: append.simps simp_thms)
qed

end
